theory Spec2Isabelle
  imports Main "HOL-Library.Log_Nat" "HOL-Library.Sublist"
begin

section \<open>JavaScript numbers\<close>

text \<open>
  The service computes with JavaScript numbers, which are IEEE 754 binary64 values.  A finite
  double is a rational, so numbers are modelled as \<^typ>\<open>rat\<close> and every arithmetic
  operator of the source is the exact operation followed by \<open>fl\<close>, rounding to the nearest
  double with ties to the even significand (53 bits, smallest exponent \<open>-1074\<close>).  Overflow to
  Infinity is not modelled: every product, quotient and sum formed by the scorer lies
  between 0 and 100.
\<close>

definition pow2 :: "int \<Rightarrow> rat" where
  "pow2 k = (if 0 \<le> k then 2 ^ nat k else 1 / 2 ^ nat (- k))"

definition exponent :: "rat \<Rightarrow> int" where
  \<comment> \<open>the \<open>k\<close> with \<open>2^k \<le> |x| < 2^(k+1)\<close>, for \<open>x \<noteq> 0\<close>\<close>
  "exponent x =
     (let p = fst (quotient_of \<bar>x\<bar>); q = snd (quotient_of \<bar>x\<bar>);
          k = bitlen p - bitlen q
      in if pow2 k \<le> \<bar>x\<bar> then k else k - 1)"

definition rne :: "rat \<Rightarrow> int" where
  \<comment> \<open>nearest integer, ties to even\<close>
  "rne y =
     (let n = \<lfloor>y\<rfloor>; r = y - of_int n
      in if r < 1 / 2 then n else if 1 / 2 < r then n + 1 else if even n then n else n + 1)"

definition ulp_exp :: "rat \<Rightarrow> int" where
  "ulp_exp x = max (exponent x - 52) (- 1074)"

definition fl :: "rat \<Rightarrow> rat" where
  "fl x = (if x = 0 then 0 else of_int (rne (x / pow2 (ulp_exp x))) * pow2 (ulp_exp x))"

definition js_div :: "rat \<Rightarrow> rat \<Rightarrow> rat" where
  "js_div a b = fl (a / b)"

definition js_mul :: "rat \<Rightarrow> rat \<Rightarrow> rat" where
  "js_mul a b = fl (a * b)"

definition js_add :: "rat \<Rightarrow> rat \<Rightarrow> rat" where
  "js_add a b = fl (a + b)"

definition Math_round :: "rat \<Rightarrow> int" where
  \<comment> \<open>\<open>Math.round\<close>: the nearest integer, a tie going up\<close>
  "Math_round x = \<lfloor>x + 1 / 2\<rfloor>"

text \<open>The decimal literals \<open>0.5\<close>, \<open>0.3\<close> and \<open>0.2\<close> denote the nearest doubles.\<close>

definition lit_0_5 :: rat where "lit_0_5 = fl (5 / 10)"
definition lit_0_3 :: rat where "lit_0_3 = fl (3 / 10)"
definition lit_0_2 :: rat where "lit_0_2 = fl (2 / 10)"

section \<open>Strings\<close>

text \<open>
  A string is a list of characters, a character standing for a UTF-16 code unit below 256.
  \<open>toLowerCase\<close> maps the letters \<open>A\<close> to \<open>Z\<close>, and the capital letters of Latin-1 (192 to
  222 without the multiplication sign 215), to the small letters 32 places further and keeps
  every other character; \<open>str_includes s t\<close> is \<open>s.includes(t)\<close>.
\<close>

definition in_range :: "nat \<Rightarrow> nat \<Rightarrow> char \<Rightarrow> bool" where
  "in_range lo hi c = (lo \<le> of_char c \<and> (of_char c :: nat) \<le> hi)"

definition is_upper :: "char \<Rightarrow> bool" where
  "is_upper c = in_range 65 90 c"

definition is_lower :: "char \<Rightarrow> bool" where
  "is_lower c = in_range 97 122 c"

definition is_digit :: "char \<Rightarrow> bool" where
  "is_digit c = in_range 48 57 c"

definition is_upper_latin1 :: "char \<Rightarrow> bool" where
  "is_upper_latin1 c = (in_range 192 222 c \<and> of_char c \<noteq> (215 :: nat))"

definition lower_char :: "char \<Rightarrow> char" where
  "lower_char c =
     (if is_upper c \<or> is_upper_latin1 c then char_of (of_char c + (32 :: nat)) else c)"

definition toLowerCase :: "string \<Rightarrow> string" where
  "toLowerCase s = map lower_char s"

fun str_includes :: "string \<Rightarrow> string \<Rightarrow> bool" where
  "str_includes [] t = (t = [])"
| "str_includes (c # cs) t = (prefix t (c # cs) \<or> str_includes cs t)"

fun digits_of :: "nat \<Rightarrow> string" where
  "digits_of n =
     (if n < 10 then [char_of (48 + n)] else digits_of (n div 10) @ [char_of (48 + n mod 10)])"

definition show_int :: "int \<Rightarrow> string" where
  "show_int i = (if i < 0 then CHR ''-'' # digits_of (nat (- i)) else digits_of (nat i))"

section \<open>Records of the service\<close>

text \<open>
  The service works on plain JavaScript objects.  A loosely typed object is an association
  list from property names to values, in insertion order; reading a property that is not
  there gives \<open>Undefined\<close>.  An optional top-level field is an \<open>option\<close>: \<open>None\<close> is
  an absent (or null) field, which is falsy, and an array or object is truthy even when it
  is empty.
\<close>

datatype error = TypeError | ServiceError

datatype js_value = Undefined | Null | Bool bool | Num rat | Str string

type_synonym js_object = "(string \<times> js_value) list"

definition get_prop :: "js_object \<Rightarrow> string \<Rightarrow> js_value" where
  "get_prop obj k = (case map_of obj k of None \<Rightarrow> Undefined | Some v \<Rightarrow> v)"

text \<open>An entry of a skills array is an object (with a \<open>name\<close>, usually) or a bare string.\<close>

datatype skill_entry = SkillObject js_object | SkillString string

record job_experience =
  exp_min :: "rat option"
  exp_max :: "rat option"

record job_posting =
  job_title :: string
  job_description :: string
  job_requirements :: string
  job_skills :: "skill_entry list option"
  job_experience :: "job_experience option"

record candidate_profile =
  personalInfo :: "js_object option"
  summary :: "string option"
  experience :: "js_object list option"
  education :: "js_object list option"
  skills :: "skill_entry list option"
  projects :: "js_object list option"
  certifications :: "js_object list option"
  languages :: "js_object list option"

record sub_match =
  score :: int
  details :: string

record skills_match = sub_match +
  matchedSkills :: "string list"
  missingSkills :: "string list"

record experience_match = sub_match +
  requiredYears :: rat
  candidateYears :: nat

record match_result =
  overallScore :: int
  skillsMatch :: skills_match
  experienceMatch :: experience_match
  educationMatch :: sub_match
  recommendedActions :: "string list"
  matchSummary :: string

section \<open>The fallback scorer\<close>

text \<open>
  \<open>skill_key\<close> is the callback \<open>s => s.name?.toLowerCase() || s.toLowerCase()\<close>.  On a bare
  string \<open>s.name\<close> is undefined and the right operand is the result.  On an object the left
  operand is the result when it is a non-empty string; when the name is absent, null or the
  empty string the right operand calls \<open>toLowerCase\<close> on the object, and when the name is a
  number or a boolean the left operand calls \<open>toLowerCase\<close> on it: both raise a TypeError.
\<close>

fun skill_key :: "skill_entry \<Rightarrow> error + string" where
  "skill_key (SkillString s) = Inr (toLowerCase s)"
| "skill_key (SkillObject obj) =
     (case get_prop obj ''name'' of
        Str n \<Rightarrow> if toLowerCase n = [] then Inl TypeError else Inr (toLowerCase n)
      | Undefined \<Rightarrow> Inl TypeError
      | Null \<Rightarrow> Inl TypeError
      | Bool b \<Rightarrow> Inl TypeError
      | Num x \<Rightarrow> Inl TypeError)"

text \<open>\<open>Array.prototype.map\<close> with a callback that may raise: the first exception ends the map.\<close>

fun map_err :: "('a \<Rightarrow> error + 'b) \<Rightarrow> 'a list \<Rightarrow> error + 'b list" where
  "map_err f [] = Inr []"
| "map_err f (x # xs) =
     (case f x of
        Inl e \<Rightarrow> Inl e
      | Inr y \<Rightarrow> (case map_err f xs of Inl e \<Rightarrow> Inl e | Inr ys \<Rightarrow> Inr (y # ys)))"

definition skill_matches :: "string list \<Rightarrow> string \<Rightarrow> bool" where
  \<comment> \<open>\<open>candidateSkills.some(cSkill => cSkill.includes(skill) || skill.includes(cSkill))\<close>\<close>
  "skill_matches candidateSkills skill =
     list_ex (\<lambda>cSkill. str_includes cSkill skill \<or> str_includes skill cSkill) candidateSkills"

definition percentage :: "nat \<Rightarrow> nat \<Rightarrow> int" where
  \<comment> \<open>\<open>Math.round((a / b) * 100)\<close>\<close>
  "percentage a b = Math_round (js_mul (js_div (of_nat a) (of_nat b)) 100)"

definition skills_score :: "job_posting \<Rightarrow> candidate_profile \<Rightarrow> error + int" where
  "skills_score jobDescription candidateProfile =
     (case (job_skills jobDescription, skills candidateProfile) of
        (Some js, Some cs) \<Rightarrow>
          (case map_err skill_key js of
             Inl e \<Rightarrow> Inl e
           | Inr jobSkills \<Rightarrow>
               (case map_err skill_key cs of
                  Inl e \<Rightarrow> Inl e
                | Inr candidateSkills \<Rightarrow>
                    (let matchedSkills = filter (skill_matches candidateSkills) jobSkills
                     in Inr (if length jobSkills > 0
                             then percentage (length matchedSkills) (length jobSkills)
                             else 0))))
      | _ \<Rightarrow> Inr 0)"

text \<open>
  The experience block.  \<open>required_years\<close> is \<open>jobDescription.experience?.min || 0\<close> and
  \<open>candidate_years\<close> is \<open>candidateProfile.experience?.length || 0\<close>.  The branch taken is
  kept as a value, so that the one branch that divides by the required years can be named.
\<close>

definition required_years :: "job_posting \<Rightarrow> rat" where
  "required_years jobDescription =
     (case job_experience jobDescription of
        None \<Rightarrow> 0
      | Some je \<Rightarrow> (case exp_min je of None \<Rightarrow> 0 | Some m \<Rightarrow> m))"

definition candidate_years :: "candidate_profile \<Rightarrow> nat" where
  "candidate_years candidateProfile =
     (case experience candidateProfile of None \<Rightarrow> 0 | Some xs \<Rightarrow> length xs)"

datatype experience_branch = BlockSkipped | EnoughYears | PartialCredit | NoCredit

definition experience_branch :: "job_posting \<Rightarrow> candidate_profile \<Rightarrow> experience_branch" where
  "experience_branch jobDescription candidateProfile =
     (case (job_experience jobDescription, experience candidateProfile) of
        (Some je, Some xs) \<Rightarrow>
          (if required_years jobDescription \<le> of_nat (candidate_years candidateProfile)
           then EnoughYears
           else if candidate_years candidateProfile > 0 then PartialCredit
           else NoCredit)
      | _ \<Rightarrow> BlockSkipped)"

definition experience_score :: "job_posting \<Rightarrow> candidate_profile \<Rightarrow> int" where
  "experience_score jobDescription candidateProfile =
     (case experience_branch jobDescription candidateProfile of
        EnoughYears \<Rightarrow> 100
      | PartialCredit \<Rightarrow>
          Math_round (js_mul (js_div (of_nat (candidate_years candidateProfile))
                                     (required_years jobDescription)) 100)
      | NoCredit \<Rightarrow> 0
      | BlockSkipped \<Rightarrow> 0)"

definition education_score :: "candidate_profile \<Rightarrow> int" where
  "education_score candidateProfile =
     (case education candidateProfile of
        None \<Rightarrow> 0
      | Some es \<Rightarrow> if length es > 0 then 80 else 0)"

definition weighted :: "int \<Rightarrow> int \<Rightarrow> int \<Rightarrow> int" where
  \<comment> \<open>\<open>Math.round((skills * 0.5) + (experience * 0.3) + (education * 0.2))\<close>\<close>
  "weighted s e d =
     Math_round (js_add (js_add (js_mul (of_int s) lit_0_5) (js_mul (of_int e) lit_0_3))
                        (js_mul (of_int d) lit_0_2))"

definition fallbackATSScoring :: "job_posting \<Rightarrow> candidate_profile \<Rightarrow> error + match_result" where
  "fallbackATSScoring jobDescription candidateProfile =
     (case skills_score jobDescription candidateProfile of
        Inl e \<Rightarrow> Inl e
      | Inr s \<Rightarrow>
          (let e = experience_score jobDescription candidateProfile;
               d = education_score candidateProfile;
               overall = weighted s e d
           in Inr \<lparr>overallScore = overall,
                    skillsMatch = \<lparr>score = s, details = ''Basic skills matching performed'',
                                   matchedSkills = [], missingSkills = []\<rparr>,
                    experienceMatch = \<lparr>score = e,
                                       details = ''Basic experience matching performed'',
                                       requiredYears = required_years jobDescription,
                                       candidateYears = candidate_years candidateProfile\<rparr>,
                    educationMatch = \<lparr>score = d,
                                      details = ''Basic education matching performed''\<rparr>,
                    recommendedActions = [''Complete your profile'', ''Add more relevant skills''],
                    matchSummary = ''Overall match score: '' @ show_int overall
                                   @ ''%. This is a basic calculation.''\<rparr>))"

section \<open>The fallback resume extractor\<close>

text \<open>
  White space is what \<open>\s\<close> and \<open>trim\<close> accept among the characters of the model: tab, line
  feed, vertical tab, form feed, carriage return, space and the no-break space.  A line
  terminator, after which \<open>^\<close> matches in multi-line mode, is a line feed or a carriage
  return.
\<close>

definition is_space :: "char \<Rightarrow> bool" where
  "is_space c = (in_range 9 13 c \<or> of_char c = (32 :: nat) \<or> of_char c = (160 :: nat))"

definition is_line_terminator :: "char \<Rightarrow> bool" where
  "is_line_terminator c = (of_char c = (10 :: nat) \<or> of_char c = (13 :: nat))"

definition is_alpha :: "char \<Rightarrow> bool" where
  "is_alpha c = (is_lower c \<or> is_upper c)"

definition trim :: "string \<Rightarrow> string" where
  "trim s = rev (dropWhile is_space (rev (dropWhile is_space s)))"

fun split_on :: "char \<Rightarrow> string \<Rightarrow> string list" where
  "split_on sep [] = [[]]"
| "split_on sep (c # cs) =
     (if c = sep then [] # split_on sep cs
      else (case split_on sep cs of [] \<Rightarrow> [[c]] | l # ls \<Rightarrow> (c # l) # ls))"

subsection \<open>The regular expressions\<close>

text \<open>
  Each of the extractor's patterns is a sequence of character classes, each with a greedy
  quantifier: \<open>Item c lo hi\<close> matches between \<open>lo\<close> and \<open>hi\<close> characters of the class \<open>c\<close>
  (\<open>hi = None\<close>: no upper bound).  \<open>rmatch\<close> matches a sequence at the start of a string as the
  backtracking matcher does: an item first takes as many characters as it can and gives
  them back one at a time while the rest of the pattern fails.  It returns the length of
  the match.  \<open>exec_from\<close> tries the start positions from left to right; with
  \<open>line_anchor\<close> only the starts of lines are tried.
\<close>

datatype item = Item (cls: "char \<Rightarrow> bool") (at_least: nat) (at_most: "nat option")

datatype regex = Regex (line_anchor: bool) (items: "item list")

definition run :: "item \<Rightarrow> string \<Rightarrow> nat" where
  "run it s =
     (let n = length (takeWhile (cls it) s)
      in case at_most it of None \<Rightarrow> n | Some m \<Rightarrow> min n m)"

primrec backtrack :: "(string \<Rightarrow> nat option) \<Rightarrow> string \<Rightarrow> nat \<Rightarrow> nat \<Rightarrow> nat option" where
  "backtrack cont s lo 0 = (if lo = 0 then cont s else None)"
| "backtrack cont s lo (Suc k) =
     (if Suc k < lo then None
      else (case cont (drop (Suc k) s) of
              Some m \<Rightarrow> Some (Suc k + m)
            | None \<Rightarrow> backtrack cont s lo k))"

primrec rmatch :: "item list \<Rightarrow> string \<Rightarrow> nat option" where
  "rmatch [] = (\<lambda>s. Some 0)"
| "rmatch (it # its) = (\<lambda>s. backtrack (rmatch its) s (at_least it) (run it s))"

definition match_at :: "regex \<Rightarrow> bool \<Rightarrow> string \<Rightarrow> string option" where
  "match_at re line_start s =
     (if line_anchor re \<and> \<not> line_start then None
      else map_option (\<lambda>n. take n s) (rmatch (items re) s))"

fun exec_from :: "regex \<Rightarrow> bool \<Rightarrow> string \<Rightarrow> string option" where
  "exec_from re line_start [] = match_at re line_start []"
| "exec_from re line_start (c # cs) =
     (case match_at re line_start (c # cs) of
        Some m \<Rightarrow> Some m
      | None \<Rightarrow> exec_from re (is_line_terminator c) cs)"

definition str_match :: "string \<Rightarrow> regex \<Rightarrow> string option" where
  \<comment> \<open>\<open>s.match(re)\<close>, giving the matched text; \<open>None\<close> is \<open>null\<close>\<close>
  "str_match s re = exec_from re True s"

definition is_char :: "char \<Rightarrow> char \<Rightarrow> bool" where
  "is_char a c = (c = a)"

definition email_local :: "char \<Rightarrow> bool" where
  \<comment> \<open>\<open>[a-zA-Z0-9._%+-]\<close>\<close>
  "email_local c = (is_alpha c \<or> is_digit c \<or> c \<in> set ''._%+-'')"

definition email_domain :: "char \<Rightarrow> bool" where
  \<comment> \<open>\<open>[a-zA-Z0-9.-]\<close>\<close>
  "email_domain c = (is_alpha c \<or> is_digit c \<or> c \<in> set ''.-'')"

definition phone_char :: "char \<Rightarrow> bool" where
  \<comment> \<open>\<open>[\d\s\-\(\)]\<close>\<close>
  "phone_char c = (is_digit c \<or> is_space c \<or> c \<in> set ''-()'')"

definition email_re :: regex where
  \<comment> \<open>\<open>/[a-zA-Z0-9._%+-]+@[a-zA-Z0-9.-]+\.[a-zA-Z]{2,}/\<close>\<close>
  "email_re = Regex False
     [Item email_local 1 None, Item (is_char CHR ''@'') 1 (Some 1), Item email_domain 1 None,
      Item (is_char CHR ''.'') 1 (Some 1), Item is_alpha 2 None]"

definition phone_re :: regex where
  \<comment> \<open>\<open>/[\+]?[1-9]?[\d\s\-\(\)]{10,}/\<close>\<close>
  "phone_re = Regex False
     [Item (is_char CHR ''+'') 0 (Some 1), Item (in_range 49 57) 0 (Some 1),
      Item phone_char 10 None]"

definition name_re :: regex where
  \<comment> \<open>\<open>/^([A-Z][a-z]+ [A-Z][a-z]+)/m\<close>; the group is the whole match\<close>
  "name_re = Regex True
     [Item is_upper 1 (Some 1), Item is_lower 1 None, Item (is_char CHR '' '') 1 (Some 1),
      Item is_upper 1 (Some 1), Item is_lower 1 None]"

subsection \<open>The extractor\<close>

definition skillKeywords :: "string list" where
  "skillKeywords =
     [''Python'', ''JavaScript'', ''Java'', ''C++'', ''C#'', ''HTML'', ''CSS'', ''PHP'',
      ''MySQL'', ''React'', ''Node.js'', ''Angular'', ''Vue.js'', ''AWS'', ''Docker'', ''Git'']"

definition educationKeywords :: "string list" where
  "educationKeywords = [''Bachelor'', ''Master'', ''PhD'', ''Diploma'', ''Certificate'']"

definition skill_object :: "string \<Rightarrow> js_object" where
  "skill_object skill =
     [(''name'', Str skill), (''category'', Str ''Technical''), (''level'', Str ''Intermediate'')]"

definition education_object :: "string \<Rightarrow> js_object" where
  "education_object line =
     [(''degree'', Str line), (''school'', Str ''''), (''location'', Str ''''),
      (''startDate'', Str ''''), (''endDate'', Str ''''), (''gpa'', Str ''''),
      (''description'', Str '''')]"

definition resume_lines :: "string \<Rightarrow> string list" where
  \<comment> \<open>\<open>resumeText.split('\n').map(line => line.trim()).filter(line => line.length > 0)\<close>\<close>
  "resume_lines resumeText =
     filter (\<lambda>line. length line > 0) (map trim (split_on (CHR 0x0A) resumeText))"

definition assign :: "js_object \<Rightarrow> string \<Rightarrow> string option \<Rightarrow> js_object" where
  \<comment> \<open>\<open>if (m) obj.key = ...\<close> on an object that has no such key yet\<close>
  "assign obj key m = (case m of None \<Rightarrow> obj | Some v \<Rightarrow> obj @ [(key, Str v)])"

definition found_skills :: "string \<Rightarrow> js_object list" where
  \<comment> \<open>the \<open>forEach\<close> over \<open>skillKeywords\<close>, pushing onto \<open>foundSkills\<close>\<close>
  "found_skills resumeText =
     foldl (\<lambda>foundSkills skill.
              if str_includes (toLowerCase resumeText) (toLowerCase skill)
              then foundSkills @ [skill_object skill] else foundSkills)
           [] skillKeywords"

definition education_entries :: "string list \<Rightarrow> js_object list" where
  \<comment> \<open>the nested \<open>forEach\<close> over the lines and the keywords, pushing onto
     \<open>educationEntries\<close>\<close>
  "education_entries lines =
     foldl (\<lambda>entries line.
              foldl (\<lambda>entries keyword.
                       if str_includes line keyword
                       then entries @ [education_object line] else entries)
                    entries educationKeywords)
           [] lines"

definition fallbackResumeParser :: "string \<Rightarrow> candidate_profile" where
  "fallbackResumeParser resumeText =
     (let lines = resume_lines resumeText;
          emailMatch = str_match resumeText email_re;
          phoneMatch = str_match resumeText phone_re;
          nameMatch = str_match resumeText name_re;
          info = assign (assign (assign [] ''email'' emailMatch)
                                ''phone'' (map_option trim phoneMatch))
                        ''name'' nameMatch
      in \<lparr>personalInfo = Some info,
          summary = Some '''',
          experience = Some [],
          education = Some (education_entries lines),
          skills = Some (map SkillObject (found_skills resumeText)),
          projects = Some [],
          certifications = Some [],
          languages = Some []\<rparr>)"

section \<open>The two operations of the service\<close>

text \<open>
  The generative service is outside the program.  What a call sees of it is one of three
  things: no client was configured (\<open>genAI\<close> is null), the call raises, or the call returns
  a text.  \<open>JSON.parse\<close> is a parameter: it gives the parsed value, or \<open>None\<close> where it
  raises a SyntaxError.  An operation answers with the parsed value as it is, or with the
  result of its fallback.
\<close>

datatype service = NotConfigured | CallFails | Responds string

datatype ('j, 'r) answer = FromService 'j | FromFallback 'r

definition fence :: string where
  "fence = replicate 3 (CHR 0x60)"

definition starts_with :: "string \<Rightarrow> string \<Rightarrow> bool" where
  "starts_with s p = prefix p s"

fun strip_closing_fence :: "string \<Rightarrow> string" where
  \<comment> \<open>\<open>.replace(/\s*```$/, '')\<close>: the leftmost position from which only white space and
     a final fence follow\<close>
  "strip_closing_fence [] = []"
| "strip_closing_fence (c # cs) =
     (if dropWhile is_space (c # cs) = fence then [] else c # strip_closing_fence cs)"

definition strip_fences :: "string \<Rightarrow> string" where
  "strip_fences cleanedText =
     (if starts_with cleanedText (fence @ ''json'')
      then strip_closing_fence (dropWhile is_space (drop 7 cleanedText))
      else if starts_with cleanedText fence
      then strip_closing_fence (dropWhile is_space (drop 3 cleanedText))
      else cleanedText)"

definition json_re :: regex where
  \<comment> \<open>\<open>/\{[\s\S]*\}/\<close>\<close>
  "json_re = Regex False
     [Item (is_char CHR ''{'') 1 (Some 1), Item (\<lambda>c. True) 0 None,
      Item (is_char CHR ''}'') 1 (Some 1)]"

definition try_catch :: "error + 'a \<Rightarrow> (error \<Rightarrow> error + 'a) \<Rightarrow> error + 'a" where
  "try_catch body handler = (case body of Inl e \<Rightarrow> handler e | Inr v \<Rightarrow> Inr v)"

definition primary_path ::
  "service \<Rightarrow> (string \<Rightarrow> 'j option) \<Rightarrow> error + 'r \<Rightarrow> error + ('j, 'r) answer" where
  \<comment> \<open>the body of the outer \<open>try\<close>, the same in both operations; \<open>fallback\<close> is the call of the
     operation's fallback, which may itself raise\<close>
  "primary_path svc parse fallback =
     (case svc of
        NotConfigured \<Rightarrow> map_sum id FromFallback fallback
      | CallFails \<Rightarrow> Inl ServiceError
      | Responds text \<Rightarrow>
          (case str_match (strip_fences (trim text)) json_re of
             None \<Rightarrow> map_sum id FromFallback fallback
           | Some jsonMatch \<Rightarrow>
               (case parse jsonMatch of
                  Some parsedData \<Rightarrow> Inr (FromService parsedData)
                | None \<Rightarrow> map_sum id FromFallback fallback)))"

definition parseResumeWithGemini ::
  "service \<Rightarrow> (string \<Rightarrow> 'j option) \<Rightarrow> string \<Rightarrow> error + ('j, candidate_profile) answer" where
  "parseResumeWithGemini svc parse resumeText =
     try_catch (primary_path svc parse (Inr (fallbackResumeParser resumeText)))
               (\<lambda>error. Inr (FromFallback (fallbackResumeParser resumeText)))"

definition calculateATSScore ::
  "service \<Rightarrow> (string \<Rightarrow> 'j option) \<Rightarrow> job_posting \<Rightarrow> candidate_profile
     \<Rightarrow> error + ('j, match_result) answer" where
  "calculateATSScore svc parse jobDescription candidateProfile =
     try_catch (primary_path svc parse (fallbackATSScoring jobDescription candidateProfile))
               (\<lambda>error. map_sum id FromFallback
                           (fallbackATSScoring jobDescription candidateProfile))"

section \<open>Example inputs\<close>

definition example_job :: job_posting where
  "example_job =
     \<lparr>job_title = ''Developer'', job_description = ''Builds services'',
      job_requirements = ''Java'',
      job_skills = Some [SkillObject [(''name'', Str ''Java''), (''required'', Bool False),
                                      (''weight'', Num 1)]],
      job_experience = Some \<lparr>exp_min = Some 5, exp_max = None\<rparr>\<rparr>"

definition profile_with :: "skill_entry list option \<Rightarrow> nat option \<Rightarrow> candidate_profile" where
  \<comment> \<open>a profile with the given skills and the given number of (empty) experience entries\<close>
  "profile_with sk n =
     \<lparr>personalInfo = None, summary = None,
      experience = map_option (\<lambda>k. replicate k []) n,
      education = Some [], skills = sk,
      projects = None, certifications = None, languages = None\<rparr>"

definition example_profile :: candidate_profile where
  "example_profile =
     profile_with (Some [SkillObject [(''name'', Str ''java'')],
                         SkillObject [(''name'', Str ''SQL'')]]) (Some 1)"

definition job_requiring :: "rat option \<Rightarrow> job_posting" where
  \<comment> \<open>the example job with \<open>experience.min\<close> replaced\<close>
  "job_requiring m = example_job\<lparr>job_experience := Some \<lparr>exp_min = m, exp_max = None\<rparr>\<rparr>"

definition numbered_skills :: "nat \<Rightarrow> skill_entry list" where
  \<comment> \<open>\<open>n\<close> skills with distinct one-character names, none contained in another\<close>
  "numbered_skills n = map (\<lambda>i. SkillObject [(''name'', Str [char_of (48 + i)])]) [0..<n]"

definition forty_skills_job :: job_posting where
  "forty_skills_job = example_job\<lparr>job_skills := Some (numbered_skills 40)\<rparr>"

definition blank_skill_profile :: candidate_profile where
  \<comment> \<open>a profile holding the skill row the profile editor adds, its name not yet typed\<close>
  "blank_skill_profile =
     profile_with (Some [SkillObject [(''name'', Str ''''), (''level'', Str ''Intermediate''),
                                      (''category'', Str ''Technical'')]]) (Some 0)"

subsection \<open>Conditions on skill entries\<close>

definition usable_name :: "skill_entry \<Rightarrow> bool" where
  \<comment> \<open>the entry is a string, or an object whose \<open>name\<close> is a string that is not empty\<close>
  "usable_name entry =
     (case entry of
        SkillString s \<Rightarrow> True
      | SkillObject obj \<Rightarrow> (case get_prop obj ''name'' of Str n \<Rightarrow> n \<noteq> [] | _ \<Rightarrow> False))"

definition all_skills :: "(skill_entry \<Rightarrow> bool) \<Rightarrow> job_posting \<Rightarrow> candidate_profile \<Rightarrow> bool" where
  "all_skills P jobDescription candidateProfile =
     (list_all P (case job_skills jobDescription of None \<Rightarrow> [] | Some js \<Rightarrow> js)
      \<and> list_all P (case skills candidateProfile of None \<Rightarrow> [] | Some cs \<Rightarrow> cs))"

definition line_feed :: char where
  "line_feed = CHR 0x0A"

definition jane_name :: string where "jane_name = ''Jane Doe''"
definition jane_email :: string where "jane_email = ''jane.doe@example.com''"
definition jane_phone :: string where "jane_phone = ''(555) 123-4567''"

definition cv_heading :: string where
  \<comment> \<open>a heading line before the name\<close>
  "cv_heading = ''Curriculum vitae'' @ [line_feed]"

definition title_line :: string where
  \<comment> \<open>a line between the name and the e-mail address, with the line breaks around it\<close>
  "title_line = line_feed # ''Software Engineer'' @ [line_feed]"

definition bar :: string where
  \<comment> \<open>the separator of a one-line layout\<close>
  "bar = '' | ''"

definition jane_with_dates :: string where
  \<comment> \<open>the same with a line of employment dates after the name\<close>
  "jane_with_dates =
     ''Jane Doe'' @ [line_feed] @ ''Engineer 2015 - 2019'' @ [line_feed]
     @ ''jane.doe@example.com'' @ [line_feed] @ ''(555) 123-4567''"

section \<open>Rounding to the nearest double\<close>

lemma pow2_powi: "pow2 k = 2 powi k"
  by (simp add: pow2_def power_int_def field_simps)

lemma pow2_pos: "0 < pow2 k"
  by (simp add: pow2_powi)

lemma pow2_add: "pow2 (a + b) = pow2 a * pow2 b"
  by (simp add: pow2_powi power_int_add)

lemma pow2_mono: "a \<le> b \<Longrightarrow> pow2 a \<le> pow2 b"
  by (simp add: pow2_powi power_int_increasing)

lemma pow2_nat: "pow2 (int n) = 2 ^ n"
  by (simp add: pow2_def)

lemma pow2_strict_mono_rev: "pow2 a < pow2 b \<Longrightarrow> a < b"
  using pow2_mono [of b a] by (cases "a < b") auto

lemma exponent_bounds:
  assumes "x \<noteq> 0"
  shows "pow2 (exponent x) \<le> \<bar>x\<bar>" and "\<bar>x\<bar> < pow2 (exponent x + 1)"
proof -
  define p where "p = fst (quotient_of \<bar>x\<bar>)"
  define q where "q = snd (quotient_of \<bar>x\<bar>)"
  define k where "k = bitlen p - bitlen q"
  have pq: "quotient_of \<bar>x\<bar> = (p, q)" by (simp add: p_def q_def)
  have q: "0 < q" using quotient_of_denom_pos [OF pq] .
  have x: "\<bar>x\<bar> = of_int p / of_int q" using quotient_of_div [OF pq] .
  have p: "0 < p"
  proof -
    have "0 < \<bar>x\<bar>" using assms by simp
    then have "0 < (of_int p :: rat) / of_int q" using x by simp
    then show ?thesis using q by (simp add: zero_less_divide_iff)
  qed
  have bp: "2 ^ nat (bitlen p - 1) \<le> p" "p < 2 ^ nat (bitlen p)" using bitlen_bounds [OF p] by auto
  have bq: "2 ^ nat (bitlen q - 1) \<le> q" "q < 2 ^ nat (bitlen q)" using bitlen_bounds [OF q] by auto
  have lp: "1 \<le> bitlen p" using p bitlen_eq_zero_iff [of p] bitlen_nonneg [of p] by (cases "bitlen p = 0") auto
  have lq: "1 \<le> bitlen q" using q bitlen_eq_zero_iff [of q] bitlen_nonneg [of q] by (cases "bitlen q = 0") auto
  have P1: "pow2 (bitlen p - 1) \<le> of_int p"
  proof -
    have "pow2 (bitlen p - 1) = of_int (2 ^ nat (bitlen p - 1))" using lp by (simp add: pow2_def)
    also have "\<dots> \<le> of_int p" using bp(1) by (simp only: of_int_le_iff)
    finally show ?thesis .
  qed
  have P2: "of_int p < pow2 (bitlen p)"
  proof -
    have "(of_int p :: rat) < of_int (2 ^ nat (bitlen p))" using bp(2) by (simp only: of_int_less_iff)
    also have "\<dots> = pow2 (bitlen p)" using lp by (simp add: pow2_def)
    finally show ?thesis .
  qed
  have Q1: "pow2 (bitlen q - 1) \<le> of_int q"
  proof -
    have "pow2 (bitlen q - 1) = of_int (2 ^ nat (bitlen q - 1))" using lq by (simp add: pow2_def)
    also have "\<dots> \<le> of_int q" using bq(1) by (simp only: of_int_le_iff)
    finally show ?thesis .
  qed
  have Q2: "of_int q < pow2 (bitlen q)"
  proof -
    have "(of_int q :: rat) < of_int (2 ^ nat (bitlen q))" using bq(2) by (simp only: of_int_less_iff)
    also have "\<dots> = pow2 (bitlen q)" using lq by (simp add: pow2_def)
    finally show ?thesis .
  qed
  have qr: "(0::rat) < of_int q" using q by simp
  have lower: "pow2 (k - 1) < \<bar>x\<bar>"
  proof -
    have "pow2 (k - 1) * of_int q < pow2 (k - 1) * pow2 (bitlen q)"
      using Q2 pow2_pos by simp
    also have "\<dots> = pow2 (bitlen p - 1)" by (simp add: k_def pow2_add [symmetric])
    also have "\<dots> \<le> of_int p" by (rule P1)
    finally show ?thesis using qr by (simp add: x pos_less_divide_eq)
  qed
  have upper: "\<bar>x\<bar> < pow2 (k + 1)"
  proof -
    have "of_int p < pow2 (bitlen p)" by (rule P2)
    also have "\<dots> = pow2 (k + 1) * pow2 (bitlen q - 1)" by (simp add: k_def pow2_add [symmetric])
    also have "\<dots> \<le> pow2 (k + 1) * of_int q" using Q1 pow2_pos by simp
    finally show ?thesis using qr by (simp add: x pos_divide_less_eq)
  qed
  have e: "exponent x = (if pow2 k \<le> \<bar>x\<bar> then k else k - 1)"
    by (simp add: exponent_def Let_def p_def q_def k_def)
  show "pow2 (exponent x) \<le> \<bar>x\<bar>" using lower by (simp add: e)
  show "\<bar>x\<bar> < pow2 (exponent x + 1)" using upper by (auto simp add: e)
qed

lemma rne_error: "\<bar>of_int (rne y) - y\<bar> \<le> 1 / 2"
  unfolding rne_def Let_def by (auto simp: abs_if) linarith+

lemma rne_of_int [simp]: "rne (of_int n) = n"
  by (simp add: rne_def)

lemma rne_mono_le: "y \<le> of_int n \<Longrightarrow> rne y \<le> n"
proof -
  assume a: "y \<le> of_int n"
  have f: "\<lfloor>y\<rfloor> \<le> n" using a by (simp add: floor_le_iff) 
  show ?thesis
  proof (cases "\<lfloor>y\<rfloor> = n")
    case True
    then have "y = of_int n" using a by (metis floor_le_iff le_floor_iff order_antisym of_int_floor_le)
    then show ?thesis by simp
  next
    case False
    then have "\<lfloor>y\<rfloor> + 1 \<le> n" using f by simp
    then show ?thesis unfolding rne_def Let_def by auto
  qed
qed

lemma rne_mono_ge: "of_int n \<le> y \<Longrightarrow> n \<le> rne y"
proof -
  assume a: "of_int n \<le> y"
  then have "n \<le> \<lfloor>y\<rfloor>" by (simp add: le_floor_iff)
  then show ?thesis unfolding rne_def Let_def by auto
qed


lemma exponent_less: "x \<noteq> 0 \<Longrightarrow> \<bar>x\<bar> < pow2 k \<Longrightarrow> exponent x < k"
  using exponent_bounds(1) [of x] pow2_strict_mono_rev [of "exponent x" k] by simp

lemma ulp_exp_le: "x \<noteq> 0 \<Longrightarrow> \<bar>x\<bar> < pow2 k \<Longrightarrow> - 1021 \<le> k \<Longrightarrow> ulp_exp x \<le> k - 53"
  using exponent_less [of x k] by (simp add: ulp_exp_def)

lemma pow2_diff_nat: "j \<le> k \<Longrightarrow> pow2 k = of_int (2 ^ nat (k - j)) * pow2 j"
proof -
  assume a: "j \<le> k"
  have n: "pow2 (k - j) = 2 ^ nat (k - j)" using a by (simp add: pow2_def)
  have "pow2 k = pow2 ((k - j) + j)" by simp
  also have "\<dots> = pow2 (k - j) * pow2 j" by (rule pow2_add)
  finally show ?thesis by (simp add: n)
qed

lemma fl_def2: "fl x = of_int (rne (x / pow2 (ulp_exp x))) * pow2 (ulp_exp x)"
  by (simp add: fl_def rne_def)

lemma fl_le_grid:
  assumes "x \<le> of_int m * pow2 j" and "ulp_exp x \<le> j"
  shows "fl x \<le> of_int m * pow2 j"
proof -
  define e where "e = ulp_exp x"
  define M where "M = m * 2 ^ nat (j - e)"
  have b: "of_int m * pow2 j = of_int M * pow2 e"
    using pow2_diff_nat [of e j] assms(2) by (simp add: M_def e_def)
  have "x / pow2 e \<le> of_int M" using assms(1) pow2_pos [of e] by (simp add: b pos_divide_le_eq)
  then have "rne (x / pow2 e) \<le> M" by (rule rne_mono_le)
  then have "(of_int (rne (x / pow2 e)) :: rat) \<le> of_int M" by (simp only: of_int_le_iff)
  then have "of_int (rne (x / pow2 e)) * pow2 e \<le> of_int M * pow2 e"
    using pow2_pos [of e] by simp
  then show ?thesis by (simp add: fl_def2 b e_def)
qed

lemma fl_ge_grid:
  assumes "of_int m * pow2 j \<le> x" and "ulp_exp x \<le> j"
  shows "of_int m * pow2 j \<le> fl x"
proof -
  define e where "e = ulp_exp x"
  define M where "M = m * 2 ^ nat (j - e)"
  have b: "of_int m * pow2 j = of_int M * pow2 e"
    using pow2_diff_nat [of e j] assms(2) by (simp add: M_def e_def)
  have "of_int M \<le> x / pow2 e" using assms(1) pow2_pos [of e] by (simp add: b pos_le_divide_eq)
  then have "M \<le> rne (x / pow2 e)" by (rule rne_mono_ge)
  then have "(of_int M :: rat) \<le> of_int (rne (x / pow2 e))" by (simp only: of_int_le_iff)
  then have "of_int M * pow2 e \<le> of_int (rne (x / pow2 e)) * pow2 e"
    using pow2_pos [of e] by simp
  then show ?thesis by (simp add: fl_def2 b e_def)
qed

lemma fl_exact_grid:
  assumes "x = of_int m * pow2 j" and "ulp_exp x \<le> j"
  shows "fl x = x"
  using fl_le_grid [of x m j] fl_ge_grid [of m j x] assms by simp

lemma fl_nonneg: "0 \<le> x \<Longrightarrow> 0 \<le> fl x"
proof -
  assume a: "0 \<le> x"
  have "of_int 0 \<le> x / pow2 (ulp_exp x)" using a pow2_pos [of "ulp_exp x"] by simp
  then have "0 \<le> rne (x / pow2 (ulp_exp x))" by (rule rne_mono_ge)
  then show ?thesis using pow2_pos [of "ulp_exp x"] by (simp add: fl_def2)
qed

lemma fl_le_int:
  assumes "x \<le> of_int n" and "\<bar>x\<bar> < 2 ^ 53"
  shows "fl x \<le> of_int n"
proof (cases "x = 0")
  case True
  then show ?thesis using assms by (simp add: fl_def)
next
  case False
  have "\<bar>x\<bar> < pow2 53" using assms(2) by (simp add: pow2_def)
  then have "ulp_exp x \<le> 0" using ulp_exp_le [OF False, of 53] by simp
  then show ?thesis using fl_le_grid [of x n 0] assms(1) by (simp add: pow2_def)
qed

lemma fl_error: "\<bar>fl x - x\<bar> \<le> pow2 (ulp_exp x) / 2"
proof -
  define e where "e = ulp_exp x"
  have p: "0 < pow2 e" by (rule pow2_pos)
  have "fl x - x = (of_int (rne (x / pow2 e)) - x / pow2 e) * pow2 e"
    using p by (simp add: fl_def2 e_def field_simps)
  then have "\<bar>fl x - x\<bar> = \<bar>of_int (rne (x / pow2 e)) - x / pow2 e\<bar> * pow2 e"
    using p by (simp add: abs_mult)
  also have "\<dots> \<le> (1 / 2) * pow2 e"
    using rne_error [of "x / pow2 e"] p by (intro mult_right_mono) auto
  finally show ?thesis by (simp add: e_def)
qed

lemma fl_error_small:
  assumes "\<bar>x\<bar> < 128"
  shows "\<bar>fl x - x\<bar> \<le> 1 / 2 ^ 47"
proof (cases "x = 0")
  case True
  then show ?thesis by (simp add: fl_def)
next
  case False
  have "\<bar>x\<bar> < pow2 7" using assms by (simp add: pow2_def)
  then have "ulp_exp x \<le> - 46" using ulp_exp_le [OF False, of 7] by simp
  then have "pow2 (ulp_exp x) \<le> pow2 (- 46)" by (rule pow2_mono)
  then have "pow2 (ulp_exp x) / 2 \<le> 1 / 2 ^ 47" by (simp add: pow2_def)
  then show ?thesis using fl_error [of x] by linarith
qed

lemma fl_exact_half:
  assumes "\<bar>of_int m / 2 :: rat\<bar> < 128"
  shows "fl (of_int m / 2) = of_int m / 2"
proof (cases "m = 0")
  case True
  then show ?thesis by (simp add: fl_def)
next
  case False
  have "\<bar>of_int m / 2 :: rat\<bar> < pow2 7" using assms by (simp add: pow2_def)
  then have "ulp_exp (of_int m / 2) \<le> - 46" using ulp_exp_le [of "of_int m / 2" 7] False by simp
  then have "ulp_exp (of_int m / 2) \<le> - 1" by simp
  then show ?thesis using fl_exact_grid [of "of_int m / 2" m "- 1"] by (simp add: pow2_def)
qed

lemma Math_round_bounds: "0 \<le> x \<Longrightarrow> x \<le> of_int n \<Longrightarrow> 0 \<le> Math_round x \<and> Math_round x \<le> n"
  unfolding Math_round_def by (simp add: floor_le_iff le_floor_iff) 

lemma unit_percentage:
  assumes "0 \<le> x" and "x \<le> 1"
  shows "0 \<le> Math_round (js_mul (fl x) 100) \<and> Math_round (js_mul (fl x) 100) \<le> 100"
proof -
  have q0: "0 \<le> fl x" using assms(1) by (rule fl_nonneg)
  have q1: "fl x \<le> 1" using fl_le_int [of x 1] assms by simp
  have p0: "0 \<le> fl (fl x * 100)" using q0 by (intro fl_nonneg) simp
  have p1: "fl (fl x * 100) \<le> of_int 100" using q0 q1 by (intro fl_le_int) auto
  show ?thesis using Math_round_bounds [OF p0 p1] by (simp add: js_mul_def)
qed

lemma lit_0_5_eq: "lit_0_5 = 1 / 2"
  by code_simp

lemma lit_0_3_eq: "lit_0_3 = 5404319552844595 / 18014398509481984"
  by code_simp

lemma lit_0_2_eq: "lit_0_2 = 3602879701896397 / 18014398509481984"
  by code_simp

lemma mul_0_2_eighty: "fl (80 * lit_0_2) = 16"
  by code_simp

lemma rne_nearest: "\<bar>y - of_int M\<bar> < 1 / 2 \<Longrightarrow> rne y = M"
proof -
  assume a: "\<bar>y - of_int M\<bar> < 1 / 2"
  have "\<bar>of_int (rne y) - y\<bar> \<le> 1 / 2" by (rule rne_error)
  then have "\<bar>(of_int (rne y) :: rat) - of_int M\<bar> < 1" using a by linarith
  then have "\<bar>(of_int (rne y - M) :: rat)\<bar> < of_int 1" by simp
  then have "\<bar>rne y - M\<bar> < 1" by (simp only: of_int_abs [symmetric] of_int_less_iff)
  then show ?thesis by simp
qed

lemma fl_nearest:
  assumes "g = of_int M * pow2 (ulp_exp x)" and "\<bar>x - g\<bar> < pow2 (ulp_exp x) / 2"
  shows "fl x = g"
proof -
  define e where "e = ulp_exp x"
  have p: "0 < pow2 e" by (rule pow2_pos)
  have "x / pow2 e - of_int M = (x - g) / pow2 e" using p by (simp add: assms(1) e_def field_simps)
  then have "\<bar>x / pow2 e - of_int M\<bar> = \<bar>x - g\<bar> / pow2 e" using p by simp
  also have "\<dots> < 1 / 2" using assms(2) p by (simp add: e_def pos_divide_less_eq)
  finally have "rne (x / pow2 e) = M" by (rule rne_nearest)
  then show ?thesis by (simp add: fl_def2 assms(1) e_def)
qed

lemma ulp_exp_ge: "x \<noteq> 0 \<Longrightarrow> \<bar>x\<bar> / 2 ^ 53 < pow2 (ulp_exp x)"
proof -
  assume "x \<noteq> 0"
  then have "\<bar>x\<bar> < pow2 (exponent x + 1)" by (rule exponent_bounds(2))
  also have "\<dots> = pow2 (exponent x - 52) * 2 ^ 53"
    using pow2_add [of "exponent x - 52" 53] by (simp add: pow2_nat [of 53, simplified] add.commute)
  finally have "\<bar>x\<bar> / 2 ^ 53 < pow2 (exponent x - 52)" by (simp add: pos_divide_less_eq)
  also have "\<dots> \<le> pow2 (ulp_exp x)" by (intro pow2_mono) (simp add: ulp_exp_def)
  finally show ?thesis .
qed

lemma mul_0_3_fives:
  assumes "0 \<le> m" and "m \<le> 20"
  shows "fl (of_int (5 * m) * lit_0_3) = of_int (3 * m) / 2"
proof (cases "m = 0")
  case True
  then show ?thesis by (simp add: fl_def)
next
  case False
  define x :: rat where "x = of_int (5 * m) * lit_0_3"
  have mr: "(1::rat) \<le> of_int m" "(of_int m :: rat) \<le> 20" using assms False by simp_all
  have xv: "x = 3 * of_int m / 2 - of_int m / 2 ^ 54" by (simp add: x_def lit_0_3_eq field_simps)
  have e1: "(0::rat) < 1 / 2 ^ 54" "(1::rat) / 2 ^ 54 < 1 / 4" by simp_all
  have k: "of_int m / 2 ^ 54 = of_int m * ((1::rat) / 2 ^ 54)" by simp
  have small: "of_int m / 2 ^ 54 \<le> (of_int m :: rat) / 4" using mr by (simp add: field_simps)
  have m0: "(0::rat) \<le> of_int m / 2 ^ 54" using mr by simp
  have xpos: "of_int m \<le> x" "x < 128" using mr small m0 unfolding xv by linarith+
  then have x0: "x \<noteq> 0" and xa: "\<bar>x\<bar> < pow2 7" using mr by (simp_all add: pow2_def)
  have "ulp_exp x \<le> - 46" using ulp_exp_le [OF x0 xa] by simp
  then have le: "ulp_exp x \<le> - 1" by simp
  define M where "M = 3 * m * 2 ^ nat (- 1 - ulp_exp x)"
  have g: "of_int (3 * m) / 2 = of_int M * pow2 (ulp_exp x)"
    using pow2_diff_nat [OF le] by (simp add: M_def pow2_def)
  have "\<bar>x - of_int (3 * m) / 2\<bar> = of_int m / 2 ^ 54" using mr by (simp add: xv)
  also have "\<dots> \<le> \<bar>x\<bar> / 2 ^ 53 / 2" using xpos mr by (simp add: field_simps)
  also have "\<dots> < pow2 (ulp_exp x) / 2" using ulp_exp_ge [OF x0] by simp
  finally show ?thesis using fl_nearest [OF g] by (simp add: x_def)
qed

section \<open>Properties of the scorer\<close>

lemma weighted_exact:
  assumes s: "0 \<le> s" "s \<le> 100" and e: "0 \<le> e" "e \<le> 100" and d: "d = 0 \<or> d = 80"
  shows "weighted s e d = (5 * s + 3 * e + 2 * d + 5) div 10"
proof -
  define A where "A = js_mul (of_int s) lit_0_5"
  define B where "B = js_mul (of_int e) lit_0_3"
  define D where "D = js_mul (of_int d) lit_0_2"
  define C where "C = js_add A B"
  define E where "E = js_add C D"
  define N where "N = 5 * s + 3 * e + 2 * d + 5"
  have w: "weighted s e d = \<lfloor>E + 1 / 2\<rfloor>"
    by (simp add: weighted_def Math_round_def A_def B_def C_def D_def E_def)
  have sr: "(0::rat) \<le> of_int s" "(of_int s :: rat) \<le> 100" using s by simp_all
  have er: "(0::rat) \<le> of_int e" "(of_int e :: rat) \<le> 100" using e by simp_all
  have A: "A = of_int s / 2"
    using fl_exact_half [of s] sr by (simp add: A_def js_mul_def lit_0_5_eq)
  have D: "D = of_int d / 5"
    using d mul_0_2_eighty by (auto simp: D_def js_mul_def fl_def)
  have dr: "(of_int d :: rat) = 0 \<or> (of_int d :: rat) = 80" using d by auto
  show ?thesis
  proof (cases "e mod 5 = 0")
    case True
    then obtain m where m: "e = 5 * m" by auto
    then have "0 \<le> m" "m \<le> 20" using e by auto
    then have B: "B = of_int (3 * m) / 2"
      using mul_0_3_fives [of m] m by (simp add: B_def js_mul_def)
    have AB: "A + B = of_int (s + 3 * m) / 2" by (simp add: A B add_divide_distrib)
    have "\<bar>of_int (s + 3 * m) / 2 :: rat\<bar> < 128" using sr er m by (simp add: abs_if)
    then have C: "C = of_int (s + 3 * m) / 2"
      using fl_exact_half [of "s + 3 * m"] by (simp add: C_def js_add_def AB)
    have CD: "C + D = of_int (s + 3 * m + 2 * (d div 5)) / 2"
      using d by (auto simp: C D add_divide_distrib)
    have "\<bar>of_int (s + 3 * m + 2 * (d div 5)) / 2 :: rat\<bar> < 128"
      using sr er m d by (auto simp: abs_if)
    then have E: "E = of_int (s + 3 * m + 2 * (d div 5)) / 2"
      using fl_exact_half [of "s + 3 * m + 2 * (d div 5)"] by (simp add: E_def js_add_def CD)
    have "E + 1 / 2 = of_int (s + 3 * m + 2 * (d div 5) + 1) / of_int 2"
      by (simp add: E add_divide_distrib)
    then have "\<lfloor>E + 1 / 2\<rfloor> = (s + 3 * m + 2 * (d div 5) + 1) div 2"
      by (simp only: floor_divide_of_int_eq)
    also have "\<dots> = (5 * s + 3 * e + 2 * d + 5) div 10" using d m by auto
    finally show ?thesis by (simp add: w)
  next
    case False
    define k where "k = N div 10"
    define r where "r = N mod 10"
    have "N mod 5 \<noteq> 0" using False d unfolding N_def by presburger
    then have r: "1 \<le> r" "r \<le> 9" unfolding r_def by presburger+
    have Nk: "N = 10 * k + r" by (simp add: k_def r_def)
    have x3: "\<bar>of_int e * lit_0_3\<bar> < 128" using er by (simp add: lit_0_3_eq abs_if)
    have b1: "\<bar>B - of_int e * lit_0_3\<bar> \<le> 1 / 2 ^ 47"
      using fl_error_small [OF x3] by (simp add: B_def js_mul_def)
    have b2: "\<bar>of_int e * lit_0_3 - 3 * of_int e / 10\<bar> \<le> 1 / 2 ^ 47"
      using er by (simp add: lit_0_3_eq abs_if)
    have Bb: "\<bar>B - 3 * of_int e / 10\<bar> \<le> 2 / 2 ^ 47" using b1 b2 by linarith
    have eps: "(2::rat) / 2 ^ 47 \<le> 1" "(1::rat) / 2 ^ 47 \<le> 1" by simp_all
    have Br: "- 1 \<le> B" "B \<le> 31" using Bb er eps by linarith+
    have ABr: "- 1 \<le> A + B" "A + B \<le> 81" using Br sr unfolding A by linarith+
    then have "\<bar>A + B\<bar> < 128" by linarith
    then have Cb: "\<bar>C - (A + B)\<bar> \<le> 1 / 2 ^ 47"
      using fl_error_small [of "A + B"] by (simp add: C_def js_add_def)
    have Cr: "- 2 \<le> C" "C \<le> 82" using Cb ABr eps by linarith+
    have Dr: "0 \<le> D" "D \<le> 16" using dr unfolding D by auto
    have "\<bar>C + D\<bar> < 128" using Cr Dr by linarith
    then have Eb: "\<bar>E - (C + D)\<bar> \<le> 1 / 2 ^ 47"
      using fl_error_small [of "C + D"] by (simp add: E_def js_add_def)
    have X: "of_int s / 2 + 3 * of_int e / 10 + of_int d / 5 + 1 / 2 = (of_int N :: rat) / 10"
      by (simp add: N_def field_simps)
    have "\<bar>E + 1 / 2 - of_int N / 10\<bar> \<le> 4 / 2 ^ 47"
      using Eb Cb Bb unfolding X [symmetric] A D by linarith
    moreover have "(4::rat) / 2 ^ 47 < 1 / 20" by simp
    ultimately have near: "\<bar>E + 1 / 2 - of_int N / 10\<bar> < 1 / 20" by linarith
    have Nr: "(of_int N :: rat) / 10 = of_int k + of_int r / 10" by (simp add: Nk)
    have rr: "(1::rat) \<le> of_int r" "(of_int r :: rat) \<le> 9" using r by simp_all
    have lo: "of_int k \<le> E + 1 / 2" using near rr unfolding Nr by linarith
    have hi: "E + 1 / 2 < of_int k + 1" using near rr unfolding Nr by linarith
    have "\<lfloor>E + 1 / 2\<rfloor> = k" using lo hi by (simp add: floor_unique)
    then show ?thesis by (simp add: w k_def N_def)
  qed
qed

lemma map_err_length: "map_err f xs = Inr ys \<Longrightarrow> length ys = length xs"
  by (induction xs arbitrary: ys) (auto split: sum.splits)

lemma map_err_map: "map_err f xs = Inr ys \<Longrightarrow> map f xs = map Inr ys"
  by (induction xs arbitrary: ys) (auto split: sum.splits)

lemma map_err_total: "(\<And>x. x \<in> set xs \<Longrightarrow> \<exists>y. f x = Inr y) \<Longrightarrow> \<exists>ys. map_err f xs = Inr ys"
  by (induction xs) (fastforce split: sum.splits)+

lemma percentage_bounds:
  assumes "a \<le> b" and "0 < b"
  shows "0 \<le> percentage a b \<and> percentage a b \<le> 100"
proof -
  have "(0::rat) \<le> of_nat a / of_nat b" by simp
  moreover have "(of_nat a :: rat) / of_nat b \<le> 1" using assms by (simp add: pos_divide_le_eq)
  ultimately show ?thesis
    using unit_percentage [of "of_nat a / of_nat b"] by (simp add: percentage_def js_div_def)
qed

lemma skills_score_bounds:
  assumes "skills_score j p = Inr s"
  shows "0 \<le> s \<and> s \<le> 100"
proof (cases "job_skills j")
  case None
  then show ?thesis using assms by (simp add: skills_score_def)
next
  case (Some js)
  show ?thesis
  proof (cases "skills p")
    case None
    then show ?thesis using assms Some by (simp add: skills_score_def)
  next
    case cs: (Some cs)
    from assms Some cs obtain jk ck where
      jk: "map_err skill_key js = Inr jk" and ck: "map_err skill_key cs = Inr ck" and
      s: "s = (if length jk > 0 then percentage (length (filter (skill_matches ck) jk)) (length jk) else 0)"
      by (auto simp: skills_score_def Let_def split: sum.splits)
    show ?thesis
    proof (cases "length jk > 0")
      case True
      then show ?thesis
        using percentage_bounds [of "length (filter (skill_matches ck) jk)" "length jk"] s by simp
    next
      case False
      then show ?thesis using s by simp
    qed
  qed
qed

lemma partial_credit_ratio:
  assumes "experience_branch j p = PartialCredit"
  shows "of_nat (candidate_years p) < required_years j" and "0 < candidate_years p"
  using assms by (auto simp: experience_branch_def split: option.splits if_splits)

lemma experience_score_bounds: "0 \<le> experience_score j p \<and> experience_score j p \<le> 100"
proof (cases "experience_branch j p")
  case PartialCredit
  let ?c = "of_nat (candidate_years p) :: rat"
  let ?r = "required_years j"
  have c: "?c < ?r" "0 < ?c" using partial_credit_ratio [OF PartialCredit] by simp_all
  then have "0 \<le> ?c / ?r" "?c / ?r \<le> 1" by (simp_all add: pos_divide_le_eq)
  then show ?thesis
    using unit_percentage [of "?c / ?r"] PartialCredit by (simp add: experience_score_def js_div_def)
qed (simp_all add: experience_score_def)

lemma education_score_cases: "education_score p = 0 \<or> education_score p = 80"
  by (simp add: education_score_def split: option.splits)

lemma fallback_result:
  assumes "fallbackATSScoring j p = Inr r"
  shows "skills_score j p = Inr (score (skillsMatch r))"
    and "score (experienceMatch r) = experience_score j p"
    and "score (educationMatch r) = education_score p"
    and "overallScore r = weighted (score (skillsMatch r)) (score (experienceMatch r))
                                   (score (educationMatch r))"
    and "matchedSkills (skillsMatch r) = []" and "missingSkills (skillsMatch r) = []"
    and "requiredYears (experienceMatch r) = required_years j"
    and "candidateYears (experienceMatch r) = candidate_years p"
  using assms by (auto simp: fallbackATSScoring_def Let_def split: sum.splits)

lemma fallback_total:
  "skills_score j p = Inr s \<Longrightarrow> \<exists>r. fallbackATSScoring j p = Inr r"
  by (simp add: fallbackATSScoring_def Let_def)

lemma exact_round_div: "Math_round (of_int n / 10) = (n + 5) div 10"
proof -
  have "(of_int n :: rat) / 10 + 1 / 2 = of_int (n + 5) / of_int 10" by (simp add: field_simps)
  then show ?thesis unfolding Math_round_def by (simp only: floor_divide_of_int_eq)
qed

lemma weighted_exact_rat:
  assumes "0 \<le> s" "s \<le> 100" "0 \<le> e" "e \<le> 100" "d = 0 \<or> d = 80"
  shows "weighted s e d = Math_round (of_int s * (5 / 10) + of_int e * (3 / 10) + of_int d * (2 / 10))"
proof -
  have x: "of_int s * (5 / 10) + of_int e * (3 / 10) + of_int d * (2 / 10)
        = (of_int (5 * s + 3 * e + 2 * d) :: rat) / 10" by (simp add: field_simps)
  have "weighted s e d = (5 * s + 3 * e + 2 * d + 5) div 10" by (rule weighted_exact [OF assms])
  also have "\<dots> = Math_round (of_int (5 * s + 3 * e + 2 * d) / 10)"
    by (rule exact_round_div [symmetric])
  finally show ?thesis by (simp only: x)
qed

lemma fl_error_unit:
  assumes "0 \<le> x" and "x \<le> 1"
  shows "\<bar>fl x - x\<bar> \<le> 1 / 2 ^ 53"
proof (cases "x = 0")
  case True
  then show ?thesis by (simp add: fl_def)
next
  case False
  have "\<bar>x\<bar> < pow2 1" using assms by (simp add: pow2_def)
  then have "ulp_exp x \<le> - 52" using ulp_exp_le [OF False, of 1] by simp
  then have "pow2 (ulp_exp x) \<le> pow2 (- 52)" by (rule pow2_mono)
  then have "pow2 (ulp_exp x) / 2 \<le> 1 / 2 ^ 53" by (simp add: pow2_def)
  then show ?thesis using fl_error [of x] by linarith
qed

lemma percentage_near:
  assumes "a \<le> b" and "0 < b"
  shows "\<bar>js_mul (js_div (of_nat a) (of_nat b)) 100 - 100 * of_nat a / of_nat b\<bar> \<le> 3 / 2 ^ 47"
proof -
  define x :: rat where "x = of_nat a / of_nat b"
  have x: "0 \<le> x" "x \<le> 1" using assms by (simp_all add: x_def pos_divide_le_eq)
  have q: "\<bar>fl x - x\<bar> \<le> 1 / 2 ^ 53" using fl_error_unit [OF x] .
  have q0: "0 \<le> fl x" using x(1) by (rule fl_nonneg)
  have q1: "fl x \<le> 1" using fl_le_int [of x 1] x by simp
  have "\<bar>fl x * 100\<bar> < 128" using q0 q1 by simp
  then have p: "\<bar>fl (fl x * 100) - fl x * 100\<bar> \<le> 1 / 2 ^ 47" by (rule fl_error_small)
  have "(100::rat) / 2 ^ 53 \<le> 2 / 2 ^ 47" by simp
  then have "\<bar>fl (fl x * 100) - 100 * x\<bar> \<le> 3 / 2 ^ 47" using p q by linarith
  then show ?thesis by (simp add: js_mul_def js_div_def x_def)
qed

lemma floor_near:
  fixes p :: rat
  assumes "\<bar>p - (of_int k + of_int r / of_int m)\<bar> < 1 / of_int m" and "0 < r" and "r < m"
  shows "\<lfloor>p\<rfloor> = k"
proof -
  have m: "(0::rat) < of_int m" using assms(2,3) by simp
  have "(1::rat) \<le> of_int r" using assms(2) by simp
  then have lo: "1 / of_int m \<le> (of_int r :: rat) / of_int m" using m by (simp add: divide_right_mono)
  have "(of_int r :: rat) \<le> of_int m - 1" using assms(3) by simp
  then have "(of_int r :: rat) / of_int m \<le> (of_int m - 1) / of_int m" using m by (simp add: divide_right_mono)
  also have "\<dots> = 1 - 1 / of_int m" using m by (simp add: field_simps)
  finally have hi: "(of_int r :: rat) / of_int m \<le> 1 - 1 / of_int m" .
  have "of_int k \<le> p" "p < of_int k + 1" using assms(1) lo hi by linarith+
  then show ?thesis by (simp add: floor_unique)
qed

lemma percentage_exact:
  assumes "a \<le> b" and "0 < b" and "b < 2 ^ 44"
    and "(200 * int a + int b) mod (2 * int b) \<noteq> 0"
  shows "percentage a b = (200 * int a + int b) div (2 * int b)"
proof -
  define p where "p = js_mul (js_div (of_nat a) (of_nat b)) 100"
  define N where "N = 200 * int a + int b"
  define m where "m = 2 * int b"
  define k where "k = N div m"
  define r where "r = N mod m"
  have m: "0 < m" "m < 2 ^ 45" using assms(2,3) by (simp_all add: m_def)
  have "0 \<le> r" "r \<noteq> 0" "r < m"
    using assms(4) m(1) pos_mod_sign [of m N] pos_mod_bound [of m N] by (simp_all add: r_def N_def m_def)
  then have r: "0 < r" "r < m" by simp_all
  have N: "N = k * m + r" by (simp add: k_def r_def)
  have mr: "(0::rat) < of_int m" using m by simp
  have "(of_int m :: rat) < of_int (2 ^ 45)" using m(2) by (simp only: of_int_less_iff)
  then have "(of_int m :: rat) < 2 ^ 45" by simp
  then have eps: "(1::rat) / 2 ^ 45 < 1 / of_int m" using mr by (simp add: frac_less2)
  have "100 * of_nat a / of_nat b + 1 / 2 = (of_int N :: rat) / of_int m"
    using assms(2) by (simp add: N_def m_def field_simps)
  also have "\<dots> = of_int k + of_int r / of_int m" using mr by (simp add: N field_simps)
  finally have X: "100 * of_nat a / of_nat b + 1 / 2 = (of_int k :: rat) + of_int r / of_int m" .
  have "\<bar>p - 100 * of_nat a / of_nat b\<bar> \<le> 3 / 2 ^ 47"
    unfolding p_def by (rule percentage_near [OF assms(1,2)])
  moreover have "(3::rat) / 2 ^ 47 < 1 / 2 ^ 45" by simp
  ultimately have "\<bar>(p + 1 / 2) - (of_int k + of_int r / of_int m)\<bar> < 1 / of_int m"
    using eps unfolding X [symmetric] by linarith
  then have "\<lfloor>p + 1 / 2\<rfloor> = k" using r by (rule floor_near)
  then show ?thesis by (simp add: percentage_def Math_round_def p_def k_def N_def m_def)
qed

lemma percentage_tie:
  assumes "a \<le> b" and "0 < b" and "(200 * int a + int b) mod (2 * int b) = 0"
  shows "percentage a b = (200 * int a + int b) div (2 * int b)
         \<or> percentage a b = (200 * int a + int b) div (2 * int b) - 1"
proof -
  define p where "p = js_mul (js_div (of_nat a) (of_nat b)) 100"
  define N where "N = 200 * int a + int b"
  define m where "m = 2 * int b"
  define k where "k = N div m"
  have m: "0 < m" using assms(2) by (simp add: m_def)
  have "N mod m = 0" using assms(3) by (simp add: N_def m_def)
  then have N: "N = k * m" unfolding k_def by (metis div_mult_mod_eq add.right_neutral)
  have mr: "(0::rat) < of_int m" using m by simp
  have "100 * of_nat a / of_nat b + 1 / 2 = (of_int N :: rat) / of_int m"
    using assms(2) by (simp add: N_def m_def field_simps)
  also have "\<dots> = of_int k" using mr by (simp add: N)
  finally have X: "100 * of_nat a / of_nat b + 1 / 2 = (of_int k :: rat)" .
  have "\<bar>p - 100 * of_nat a / of_nat b\<bar> \<le> 3 / 2 ^ 47"
    unfolding p_def by (rule percentage_near [OF assms(1,2)])
  moreover have "(3::rat) / 2 ^ 47 < 1" by simp
  ultimately have "of_int (k - 1) \<le> p + 1 / 2" "p + 1 / 2 < of_int (k + 1)"
    unfolding of_int_diff of_int_add X [symmetric] by linarith+
  then have "k - 1 \<le> \<lfloor>p + 1 / 2\<rfloor>" "\<lfloor>p + 1 / 2\<rfloor> < k + 1"
    by (simp_all only: le_floor_iff floor_less_iff)
  then have "\<lfloor>p + 1 / 2\<rfloor> = k \<or> \<lfloor>p + 1 / 2\<rfloor> = k - 1" by linarith
  then show ?thesis by (simp add: percentage_def Math_round_def p_def k_def N_def m_def)
qed

lemma exact_percentage_round:
  "0 < b \<Longrightarrow> Math_round (100 * of_nat a / of_nat b) = (200 * int a + int b) div (2 * int b)"
proof -
  assume b: "0 < b"
  have "100 * of_nat a / of_nat b + 1 / 2 = (of_int (200 * int a + int b) :: rat) / of_int (2 * int b)"
    using b by (simp add: field_simps)
  then show ?thesis unfolding Math_round_def by (simp only: floor_divide_of_int_eq)
qed

lemma str_includes_sublist: "str_includes s t = sublist t s"
  by (induction s) (simp_all add: sublist_Cons_right)

lemma skill_matches_iff:
  "skill_matches ck k = (\<exists>c\<in>set ck. sublist k c \<or> sublist c k)"
  by (simp add: skill_matches_def list_ex_iff str_includes_sublist)

lemma skills_score_present:
  assumes "skills_score j p = Inr s" and "job_skills j = Some js" and "skills p = Some cs"
  shows "\<exists>jk ck. map_err skill_key js = Inr jk \<and> map_err skill_key cs = Inr ck
           \<and> s = (if js = [] then 0
                   else percentage (length (filter (skill_matches ck) jk)) (length js))"
proof -
  from assms obtain jk ck where
    jk: "map_err skill_key js = Inr jk" and ck: "map_err skill_key cs = Inr ck" and
    s: "s = (if length jk > 0 then percentage (length (filter (skill_matches ck) jk)) (length jk) else 0)"
    by (auto simp: skills_score_def Let_def split: sum.splits)
  have "length jk = length js" using jk by (rule map_err_length)
  then show ?thesis using jk ck s by auto
qed

lemma toLowerCase_empty: "toLowerCase n = [] \<longleftrightarrow> n = []"
  by (simp add: toLowerCase_def)

lemma usable_key: "usable_name entry \<Longrightarrow> \<exists>k. skill_key entry = Inr k"
  by (cases entry) (auto simp: usable_name_def toLowerCase_empty split: js_value.splits)

lemma skills_score_total:
  assumes "all_skills usable_name j p"
  shows "\<exists>s. skills_score j p = Inr s"
proof -
  have a: "\<exists>ys. map_err skill_key xs = Inr ys" if "list_all usable_name xs" for xs
    using that by (intro map_err_total usable_key) (simp add: list_all_iff)
  show ?thesis
  proof (cases "job_skills j")
    case None
    then show ?thesis by (simp add: skills_score_def)
  next
    case (Some js)
    show ?thesis
    proof (cases "skills p")
      case None
      then show ?thesis using Some by (simp add: skills_score_def)
    next
      case cs: (Some cs)
      obtain jk where jk: "map_err skill_key js = Inr jk"
        using a [of js] assms Some by (auto simp: all_skills_def)
      obtain ck where ck: "map_err skill_key cs = Inr ck"
        using a [of cs] assms cs by (auto simp: all_skills_def)
      show ?thesis using Some cs jk ck by (simp add: skills_score_def Let_def)
    qed
  qed
qed

lemma experience_score_eq:
  "experience_score j p =
     (case (job_experience j, experience p) of
        (Some je, Some xs) \<Rightarrow>
          (if required_years j \<le> of_nat (length xs) then 100
           else if length xs > 0
                then Math_round (js_mul (js_div (of_nat (length xs)) (required_years j)) 100)
                else 0)
      | _ \<Rightarrow> 0)"
  by (auto simp: experience_score_def experience_branch_def candidate_years_def split: option.splits)

lemma one_of_five: "Math_round (js_mul (js_div 1 5) 100) = 20"
  by code_simp

section \<open>Properties of the extractor\<close>

lemma foldl_push:
  "foldl (\<lambda>acc x. if P x then acc @ [f x] else acc) acc0 xs = acc0 @ map f (filter P xs)"
  by (induction xs arbitrary: acc0) simp_all

lemma found_skills_eq:
  "found_skills resumeText =
     map skill_object
       (filter (\<lambda>skill. sublist (toLowerCase skill) (toLowerCase resumeText)) skillKeywords)"
  unfolding found_skills_def foldl_push by (simp add: str_includes_sublist)

lemma education_entries_eq:
  "education_entries lines =
     concat (map (\<lambda>line. map (\<lambda>keyword. education_object line)
                            (filter (\<lambda>keyword. sublist keyword line) educationKeywords)) lines)"
proof -
  have "foldl (\<lambda>entries line.
                 foldl (\<lambda>entries keyword.
                          if str_includes line keyword
                          then entries @ [education_object line] else entries)
                       entries educationKeywords) acc0 lines
        = acc0 @ concat (map (\<lambda>line. map (\<lambda>keyword. education_object line)
                            (filter (\<lambda>keyword. sublist keyword line) educationKeywords)) lines)"
    for acc0
    by (induction lines arbitrary: acc0) (simp_all add: foldl_push str_includes_sublist)
  from this [of "[]"] show ?thesis by (simp add: education_entries_def)
qed

lemma toLowerCase_append: "toLowerCase (a @ b) = toLowerCase a @ toLowerCase b"
  by (simp add: toLowerCase_def)


section \<open>Properties of the pattern matcher\<close>

lemma run_le: "run it s \<le> length s"
  by (cases "at_most it") (auto simp: run_def Let_def intro: order_trans [OF length_takeWhile_le] min.coboundedI1 length_takeWhile_le)

lemma backtrack_le:
  assumes "\<And>t m. cont t = Some m \<Longrightarrow> m \<le> length t"
  shows "k \<le> length s \<Longrightarrow> backtrack cont s lo k = Some n \<Longrightarrow> n \<le> length s"
proof (induction k)
  case 0
  then show ?case using assms by (auto split: if_splits)
next
  case (Suc k)
  show ?case
  proof (cases "cont (drop (Suc k) s)")
    case None
    then show ?thesis using Suc by (auto split: if_splits)
  next
    case (Some m)
    then have "m \<le> length s - Suc k" using assms [of "drop (Suc k) s" m] by simp
    then show ?thesis using Suc Some by (auto split: if_splits)
  qed
qed

lemma rmatch_le: "rmatch its s = Some n \<Longrightarrow> n \<le> length s"
proof (induction its arbitrary: s n)
  case Nil
  then show ?case by simp
next
  case (Cons it its)
  show ?case
    using backtrack_le [of "rmatch its" "run it s" s "at_least it" n] Cons run_le [of it s]
    by auto
qed

lemma backtrack_cong:
  assumes "\<And>j. j \<le> k \<Longrightarrow> cont1 (drop j s1) = cont2 (drop j s2)"
  shows "backtrack cont1 s1 lo k = backtrack cont2 s2 lo k"
  using assms
proof (induction k)
  case 0
  then show ?case using "0" [of 0] by simp
next
  case (Suc k)
  have "cont1 (drop (Suc k) s1) = cont2 (drop (Suc k) s2)" using Suc.prems by simp
  moreover have "backtrack cont1 s1 lo k = backtrack cont2 s2 lo k"
    using Suc.prems by (intro Suc.IH) simp
  ultimately show ?case by (simp split: option.splits)
qed

lemma run_boundary: "\<not> cls it x \<Longrightarrow> run it (s @ x # r) = run it s"
  by (simp add: run_def takeWhile_tail)

lemma rmatch_boundary:
  "(\<And>it. it \<in> set its \<Longrightarrow> \<not> cls it x) \<Longrightarrow> rmatch its (s @ x # r) = rmatch its s"
proof (induction its arbitrary: s)
  case Nil
  then show ?case by simp
next
  case (Cons it its)
  have r: "run it (s @ x # r) = run it s" using Cons.prems by (simp add: run_boundary)
  have "backtrack (rmatch its) (s @ x # r) (at_least it) (run it s)
        = backtrack (rmatch its) s (at_least it) (run it s)"
  proof (rule backtrack_cong)
    fix j
    assume "j \<le> run it s"
    then have "j \<le> length s" using run_le [of it s] by simp
    then have "drop j (s @ x # r) = drop j s @ x # r" by simp
    then show "rmatch its (drop j (s @ x # r)) = rmatch its (drop j s)"
      using Cons.IH [of "drop j s"] Cons.prems by simp
  qed
  then show ?case by (simp add: r)
qed

lemma match_at_boundary:
  assumes "\<And>it. it \<in> set (items re) \<Longrightarrow> \<not> cls it x"
  shows "match_at re ls (s @ x # r) = match_at re ls s"
proof -
  have e: "rmatch (items re) (s @ x # r) = rmatch (items re) s"
    using assms by (rule rmatch_boundary)
  show ?thesis
  proof (cases "rmatch (items re) s")
    case None
    then show ?thesis by (simp add: match_at_def e)
  next
    case (Some n)
    then have "n \<le> length s" by (rule rmatch_le)
    then show ?thesis using Some by (simp add: match_at_def e)
  qed
qed

lemma exec_boundary:
  assumes "\<And>it. it \<in> set (items re) \<Longrightarrow> \<not> cls it x"
  shows "exec_from re ls (s @ x # r) =
           (case exec_from re ls s of
              Some m \<Rightarrow> Some m
            | None \<Rightarrow> exec_from re (is_line_terminator x) r)"
proof (induction s arbitrary: ls)
  case Nil
  show ?case using match_at_boundary [OF assms, where ls = ls and s = "[]" and r = r] by simp
next
  case (Cons c cs)
  have "match_at re ls (c # cs @ x # r) = match_at re ls (c # cs)"
    using match_at_boundary [OF assms, where ls = ls and s = "c # cs" and r = r] by simp
  then show ?case using Cons.IH by (simp split: option.splits)
qed

lemma exec_skip:
  assumes "\<And>it. it \<in> set (items re) \<Longrightarrow> \<not> cls it x" and "exec_from re ls s = None"
  shows "exec_from re ls (s @ x # r) = exec_from re (is_line_terminator x) r"
  using exec_boundary [OF assms(1), where ls = ls and s = s and r = r] assms(2) by simp

lemma exec_found:
  assumes "\<And>it. it \<in> set (items re) \<Longrightarrow> \<not> cls it x" and "exec_from re ls s = Some m"
  shows "exec_from re ls (s @ x # r) = Some m"
  using exec_boundary [OF assms(1), where ls = ls and s = s and r = r] assms(2) by simp

lemma exec_prefix_none:
  assumes "\<And>it. it \<in> set (items re) \<Longrightarrow> \<not> cls it x" and "exec_from re ls (s @ [x]) = None"
  shows "exec_from re ls s = None"
  using exec_boundary [OF assms(1), where ls = ls and s = s and r = "[]"] assms(2) by (simp split: option.splits)

lemma backtrack_accept: "lo \<le> k \<Longrightarrow> backtrack (\<lambda>s. Some 0) s lo k = Some k"
  by (cases k) auto

lemma digit_not_space: "is_digit c \<Longrightarrow> \<not> is_space c"
  by (auto simp: is_digit_def is_space_def in_range_def)

lemma filter_dropWhile_disjoint:
  "(\<And>x. Q x \<Longrightarrow> \<not> P x) \<Longrightarrow> filter Q (dropWhile P xs) = filter Q xs"
  by (induction xs) auto

lemma digits_of_trim: "filter is_digit (trim s) = filter is_digit s"
proof -
  have "filter is_digit (trim s) = rev (filter is_digit (dropWhile is_space (rev (dropWhile is_space s))))"
    by (simp add: trim_def rev_filter)
  also have "\<dots> = rev (filter is_digit (rev (dropWhile is_space s)))"
    by (simp add: filter_dropWhile_disjoint digit_not_space)
  also have "\<dots> = filter is_digit (dropWhile is_space s)" by (simp add: rev_filter)
  also have "\<dots> = filter is_digit s" by (simp add: filter_dropWhile_disjoint digit_not_space)
  finally show ?thesis .
qed

lemma char_by_code: "of_char x = (n :: nat) \<Longrightarrow> x = char_of n"
  by (metis char_of_char)

lemma line_terminator_cases: "is_line_terminator x \<Longrightarrow> x = CHR 0x0A \<or> x = CHR 0x0D"
proof -
  assume "is_line_terminator x"
  then have "x = char_of (10 :: nat) \<or> x = char_of (13 :: nat)"
    using char_by_code [of x 10] char_by_code [of x 13] by (auto simp: is_line_terminator_def)
  moreover have "(char_of (10 :: nat) :: char) = CHR 0x0A" "(char_of (13 :: nat) :: char) = CHR 0x0D"
    by code_simp+
  ultimately show ?thesis by simp
qed

lemma name_rejects_terminator:
  "is_line_terminator x \<Longrightarrow> it \<in> set (items name_re) \<Longrightarrow> \<not> cls it x"
proof -
  have "list_all (\<lambda>it. \<not> cls it (CHR 0x0A)) (items name_re)" by code_simp
  moreover have "list_all (\<lambda>it. \<not> cls it (CHR 0x0D)) (items name_re)" by code_simp
  ultimately show "is_line_terminator x \<Longrightarrow> it \<in> set (items name_re) \<Longrightarrow> \<not> cls it x"
    using line_terminator_cases [of x] by (auto simp: list_all_iff)
qed

lemma exec_of_match: "match_at re ls s = Some m \<Longrightarrow> exec_from re ls s = Some m"
  by (cases s) simp_all

lemma skip_before:
  assumes rej: "\<And>it. it \<in> set (items re) \<Longrightarrow> \<not> cls it (last before)"
    and "before \<noteq> []"
    and "str_match before re = None"
  shows "exec_from re True (before @ r) = exec_from re (is_line_terminator (last before)) r"
proof -
  define b0 where "b0 = butlast before"
  define x where "x = last before"
  have b: "before = b0 @ [x]"
    using assms(2) unfolding b0_def x_def by simp
  have rej': "\<And>it. it \<in> set (items re) \<Longrightarrow> \<not> cls it x" using rej by (simp add: x_def)
  have "exec_from re True (b0 @ [x]) = None"
    using assms(3) unfolding b by (simp add: str_match_def)
  then have "exec_from re True b0 = None"
    using exec_prefix_none [OF rej'] by blast
  then have "exec_from re True (b0 @ x # r) = exec_from re (is_line_terminator x) r"
    using exec_skip [OF rej'] by simp
  then show ?thesis unfolding b x_def [symmetric] by simp
qed

lemma rmatch_cons_run:
  assumes "run it s = k" and "at_least it \<le> k" and "rmatch its (drop k s) = Some m"
  shows "rmatch (it # its) s = Some (k + m)"
  using assms by (cases k) auto

lemma run_one: "cls it c \<Longrightarrow> at_most it = Some 1 \<Longrightarrow> run it (c # cs) = 1"
  by (simp add: run_def)

lemma rmatch_cons_one:
  assumes "cls it c" and "at_most it = Some 1" and "at_least it \<le> 1"
    and "rmatch its cs = Some m"
  shows "rmatch (it # its) (c # cs) = Some (Suc m)"
  using rmatch_cons_run [of it "c # cs" 1 its m] run_one [OF assms(1,2)] assms(3,4) by simp

lemma name_here:
  assumes "\<not> is_lower y"
  shows "match_at name_re True (jane_name @ y # r) = Some jane_name"
proof -
  define U where "U = Item is_upper 1 (Some 1)"
  define L where "L = Item is_lower 1 None"
  define S where "S = Item (is_char CHR '' '') 1 (Some 1)"
  define s5 where "s5 = ''oe'' @ y # r"
  define s2 where "s2 = ''ane'' @ CHR '' '' # CHR ''D'' # s5"
  have its: "items name_re = [U, L, S, U, L]" by (simp add: name_re_def U_def L_def S_def)
  have 5: "rmatch [L] s5 = Some 2"
  proof -
    have "rmatch [L] (''oe'' @ y # r) = rmatch [L] ''oe''"
      by (rule rmatch_boundary) (simp add: L_def assms)
    also have "\<dots> = Some 2" unfolding L_def by code_simp
    finally show ?thesis unfolding s5_def .
  qed
  have cD: "cls U CHR ''D''" and cJ: "cls U CHR ''J''" and cS: "cls S CHR '' ''"
    unfolding U_def S_def by code_simp+
  have 4: "rmatch [U, L] (CHR ''D'' # s5) = Some (Suc 2)"
    by (rule rmatch_cons_one [OF cD _ _ 5]) (simp_all add: U_def)
  have 3: "rmatch [S, U, L] (CHR '' '' # CHR ''D'' # s5) = Some (Suc (Suc 2))"
    by (rule rmatch_cons_one [OF cS _ _ 4]) (simp_all add: S_def)
  have "\<not> cls L CHR '' ''" unfolding L_def by code_simp
  then have "run L (''ane'' @ CHR '' '' # CHR ''D'' # s5) = run L ''ane''"
    by (rule run_boundary)
  also have "\<dots> = 3" unfolding L_def by code_simp
  finally have r: "run L s2 = 3" unfolding s2_def .
  have d: "drop 3 s2 = CHR '' '' # CHR ''D'' # s5" by (simp add: s2_def)
  have d3: "rmatch [S, U, L] (drop 3 s2) = Some (Suc (Suc 2))" unfolding d by (rule 3)
  have 2: "rmatch [L, S, U, L] s2 = Some (3 + Suc (Suc 2))"
    by (rule rmatch_cons_run [OF r _ d3]) (simp add: L_def)
  have 1: "rmatch [U, L, S, U, L] (CHR ''J'' # s2) = Some (Suc (3 + Suc (Suc 2)))"
    by (rule rmatch_cons_one [OF cJ _ _ 2]) (simp_all add: U_def)
  have e: "jane_name @ y # r = CHR ''J'' # s2" by (simp add: jane_name_def s2_def s5_def)
  have n: "Suc (3 + Suc (Suc 2)) = 8" by simp
  have m: "rmatch (items name_re) (jane_name @ y # r) = Some 8"
    using 1 unfolding its e n .
  have t: "take 8 (jane_name @ y # r) = jane_name" by (simp add: jane_name_def)
  show ?thesis unfolding match_at_def m using t by simp
qed

lemma email_here:
  assumes "\<not> email_domain y"
  shows "match_at email_re ls (jane_email @ y # r) = Some jane_email"
proof -
  define L where "L = Item email_local 1 None"
  define A where "A = Item (is_char CHR ''@'') 1 (Some 1)"
  define D where "D = Item email_domain 1 None"
  define T where "T = Item (is_char CHR ''.'') 1 (Some 1)"
  define Al where "Al = Item is_alpha 2 None"
  define s3 where "s3 = ''example.com'' @ y # r"
  define s1 where "s1 = ''jane.doe'' @ CHR ''@'' # s3"
  have its: "items email_re = [L, A, D, T, Al]" and anchor: "\<not> line_anchor email_re"
    by (simp_all add: email_re_def L_def A_def D_def T_def Al_def)
  have y: "\<not> is_alpha y" "\<not> is_char CHR ''.'' y"
    using assms by (auto simp: email_domain_def is_char_def)
  have 3: "rmatch [D, T, Al] s3 = Some 11"
  proof -
    have "rmatch [D, T, Al] (''example.com'' @ y # r) = rmatch [D, T, Al] ''example.com''"
      by (rule rmatch_boundary) (auto simp: D_def T_def Al_def assms y)
    also have "\<dots> = Some 11" unfolding D_def T_def Al_def by code_simp
    finally show ?thesis unfolding s3_def .
  qed
  have cA: "cls A CHR ''@''" unfolding A_def by code_simp
  have 2: "rmatch [A, D, T, Al] (CHR ''@'' # s3) = Some (Suc 11)"
    by (rule rmatch_cons_one [OF cA _ _ 3]) (simp_all add: A_def)
  have "\<not> cls L CHR ''@''" unfolding L_def by code_simp
  then have "run L (''jane.doe'' @ CHR ''@'' # s3) = run L ''jane.doe''"
    by (rule run_boundary)
  also have "\<dots> = 8" unfolding L_def by code_simp
  finally have r: "run L s1 = 8" unfolding s1_def .
  have d: "drop 8 s1 = CHR ''@'' # s3" by (simp add: s1_def)
  have d2: "rmatch [A, D, T, Al] (drop 8 s1) = Some (Suc 11)" unfolding d by (rule 2)
  have 1: "rmatch [L, A, D, T, Al] s1 = Some (8 + Suc 11)"
    by (rule rmatch_cons_run [OF r _ d2]) (simp add: L_def)
  have e: "jane_email @ y # r = s1" by (simp add: jane_email_def s1_def s3_def)
  have n: "8 + Suc 11 = (20 :: nat)" by simp
  have m: "rmatch (items email_re) (jane_email @ y # r) = Some 20"
    using 1 unfolding its e n .
  have t: "take 20 (jane_email @ y # r) = jane_email" by (simp add: jane_email_def)
  show ?thesis unfolding match_at_def m using t anchor by simp
qed

lemma backtrack_reject: "k < lo \<Longrightarrow> backtrack cont s lo k = None"
  by (cases k) auto

lemma rmatch_last:
  "rmatch [Item c lo None] s =
     (if lo \<le> length (takeWhile c s) then Some (length (takeWhile c s)) else None)"
  by (simp add: run_def backtrack_accept backtrack_reject)

lemma rmatch_opt:
  "rmatch (Item c 0 (Some (Suc 0)) # its) s =
     (case s of
        [] \<Rightarrow> rmatch its []
      | x # xs \<Rightarrow>
          if c x then (case rmatch its xs of Some m \<Rightarrow> Some (Suc m) | None \<Rightarrow> rmatch its (x # xs))
          else rmatch its (x # xs))"
  by (cases s) (simp_all add: run_def split: option.splits)

lemma phone_tail:
  "rmatch [Item (in_range 49 57) 0 (Some 1), Item phone_char 10 None] t =
     (if 10 \<le> length (takeWhile phone_char t) then Some (length (takeWhile phone_char t))
      else None)"
proof (cases t)
  case Nil
  then show ?thesis by (simp add: rmatch_opt rmatch_last del: rmatch.simps)
next
  case (Cons x xs)
  have d: "in_range 49 57 x \<Longrightarrow> phone_char x"
    by (auto simp: phone_char_def is_digit_def in_range_def)
  show ?thesis using d
    by (auto simp add: Cons rmatch_opt rmatch_last simp del: rmatch.simps)
qed

lemma phone_match_at:
  "match_at phone_re ls s =
     (case s of
        [] \<Rightarrow> None
      | x # xs \<Rightarrow>
          if x = CHR ''+''
          then (if 10 \<le> length (takeWhile phone_char xs)
                then Some (x # takeWhile phone_char xs) else None)
          else (if 10 \<le> length (takeWhile phone_char (x # xs))
                then Some (takeWhile phone_char (x # xs)) else None))"
proof -
  define T2 where "T2 = [Item (in_range 49 57) 0 (Some (Suc 0)), Item phone_char 10 None]"
  have pt: "rmatch T2 t =
              (if 10 \<le> length (takeWhile phone_char t)
               then Some (length (takeWhile phone_char t)) else None)" for t
    unfolding T2_def using phone_tail [of t] by (simp only: One_nat_def)
  have p: "\<not> phone_char CHR ''+''" by code_simp
  have its: "items phone_re = Item (is_char CHR ''+'') 0 (Some (Suc 0)) # T2"
    and anchor: "\<not> line_anchor phone_re"
    by (simp_all add: phone_re_def T2_def)
  have t: "take (length (takeWhile phone_char u)) u = takeWhile phone_char u" for u
    by (rule takeWhile_eq_take [symmetric])
  show ?thesis
  proof (cases s)
    case Nil
    then show ?thesis
      by (simp add: match_at_def its anchor rmatch_opt pt del: rmatch.simps)
  next
    case (Cons x xs)
    show ?thesis
    proof (cases "x = CHR ''+''")
      case True
      then show ?thesis using p t [of xs]
        by (simp add: Cons match_at_def its anchor rmatch_opt pt is_char_def
              del: rmatch.simps)
    next
      case False
      then show ?thesis using t [of "x # xs"]
        by (simp add: Cons match_at_def its anchor rmatch_opt pt is_char_def
              del: rmatch.simps)
    qed
  qed
qed

lemma jane_phone_chars:
  "takeWhile phone_char (jane_phone @ rest) = jane_phone @ takeWhile phone_char rest"
proof -
  have "list_all phone_char jane_phone" by code_simp
  then have "\<And>x. x \<in> set jane_phone \<Longrightarrow> phone_char x" by (simp only: list_all_iff)
  then show ?thesis by (rule takeWhile_append2)
qed

lemma phone_found:
  assumes "exec_from phone_re ls p = None"
  shows "\<exists>u. exec_from phone_re ls (p @ jane_phone @ rest)
               = Some (u @ jane_phone @ takeWhile phone_char rest)"
  using assms
proof (induction p arbitrary: ls)
  case Nil
  obtain q where q: "jane_phone = CHR ''('' # q" by (simp add: jane_phone_def)
  have len: "length jane_phone = 14" by code_simp
  have "10 \<le> length (takeWhile phone_char (jane_phone @ rest))"
    unfolding jane_phone_chars by (simp add: len)
  then have "match_at phone_re ls (jane_phone @ rest)
             = Some (takeWhile phone_char (jane_phone @ rest))"
    unfolding phone_match_at by (simp add: q)
  then have "exec_from phone_re ls (jane_phone @ rest)
             = Some ([] @ jane_phone @ takeWhile phone_char rest)"
    unfolding jane_phone_chars by (simp add: exec_of_match)
  then show ?case by (intro exI [of _ "[]"]) simp
next
  case (Cons c cs)
  let ?w = "takeWhile phone_char rest"
  have len: "length jane_phone = 14" by code_simp
  from Cons.prems have alone: "match_at phone_re ls (c # cs) = None"
    and tail: "exec_from phone_re (is_line_terminator c) cs = None"
    by (auto split: option.splits)
  from Cons.IH [OF tail] obtain u where
    u: "exec_from phone_re (is_line_terminator c) (cs @ jane_phone @ rest)
        = Some (u @ jane_phone @ ?w)" by blast
  have long: "10 \<le> length (xs @ jane_phone @ ?w)" for xs :: string by (simp add: len)
  have full: "match_at phone_re ls (c # cs @ jane_phone @ rest) = None
              \<or> match_at phone_re ls (c # cs @ jane_phone @ rest)
                 = Some ((c # cs) @ jane_phone @ ?w)"
  proof (cases "c = CHR ''+''")
    case True
    have a: "\<not> 10 \<le> length (takeWhile phone_char cs)"
      using alone True by (simp add: phone_match_at split: if_splits)
    show ?thesis
    proof (cases "\<forall>x\<in>set cs. phone_char x")
      case all: True
      then have "takeWhile phone_char (cs @ jane_phone @ rest)
                 = cs @ takeWhile phone_char (jane_phone @ rest)"
        by (intro takeWhile_append2) simp
      then have "takeWhile phone_char (cs @ jane_phone @ rest) = cs @ jane_phone @ ?w"
        by (simp only: jane_phone_chars)
      then show ?thesis using True long [of cs] by (simp add: phone_match_at)
    next
      case False
      then obtain x where "x \<in> set cs" "\<not> phone_char x" by blast
      then have "takeWhile phone_char (cs @ jane_phone @ rest) = takeWhile phone_char cs"
        by (rule takeWhile_append1)
      then show ?thesis using True a by (simp add: phone_match_at)
    qed
  next
    case False
    have a: "\<not> 10 \<le> length (takeWhile phone_char (c # cs))"
      using alone False by (simp add: phone_match_at split: if_splits)
    show ?thesis
    proof (cases "\<forall>x\<in>set (c # cs). phone_char x")
      case all: True
      then have "takeWhile phone_char ((c # cs) @ jane_phone @ rest)
                 = (c # cs) @ takeWhile phone_char (jane_phone @ rest)"
        by (intro takeWhile_append2) auto
      then have "takeWhile phone_char ((c # cs) @ jane_phone @ rest) = (c # cs) @ jane_phone @ ?w"
        by (simp only: jane_phone_chars)
      then show ?thesis using False long [of "c # cs"]
        by (simp add: phone_match_at del: takeWhile.simps)
    next
      case nall: False
      then obtain x where "x \<in> set (c # cs)" "\<not> phone_char x" by blast
      then have "takeWhile phone_char ((c # cs) @ jane_phone @ rest) = takeWhile phone_char (c # cs)"
        by (rule takeWhile_append1)
      then show ?thesis using False a by (simp add: phone_match_at del: takeWhile.simps)
    qed
  qed
  show ?case
  proof (cases "match_at phone_re ls (c # cs @ jane_phone @ rest)")
    case None
    then show ?thesis using u by simp
  next
    case (Some m)
    then have "m = (c # cs) @ jane_phone @ ?w" using full by simp
    then show ?thesis using Some by (intro exI [of _ "c # cs"]) simp
  qed
qed

lemma jane_phone_digits_in:
  "sublist ''5551234567'' (filter is_digit (trim (u @ jane_phone @ w)))"
proof -
  have "filter is_digit jane_phone = ''5551234567''" by code_simp
  then have "filter is_digit (u @ jane_phone @ w)
             = filter is_digit u @ ''5551234567'' @ filter is_digit w"
    by (simp only: filter_append)
  then show ?thesis unfolding digits_of_trim by (simp only: sublist_appendI)
qed

lemma email_rejects:
  assumes "\<not> email_local x" and "x \<noteq> CHR ''@''" and "it \<in> set (items email_re)"
  shows "\<not> cls it x"
proof -
  have d: "CHR ''.'' \<in> set ''._%+-''" by simp
  have "\<not> email_domain x" "\<not> is_alpha x" "x \<noteq> CHR ''.''"
    using assms(1) by (auto simp: email_local_def email_domain_def)
  then show ?thesis using assms by (auto simp: email_re_def is_char_def)
qed

lemma jane_found:
  assumes start: "before = [] \<or> is_line_terminator (last before)"
    and first: "str_match before name_re = None"
    and sep: "between \<noteq> []" "\<not> is_lower (hd between)"
    and left: "\<not> email_local (last between)" "last between \<noteq> CHR ''@''"
    and no_email: "str_match (before @ jane_name @ between) email_re = None"
    and right: "gap = [] \<or> \<not> email_domain (hd gap)"
    and no_phone: "str_match (before @ jane_name @ between @ jane_email @ gap) phone_re = None"
  shows "\<exists>phone. personalInfo (fallbackResumeParser
                     (before @ jane_name @ between @ jane_email @ gap @ jane_phone @ rest)) =
                   Some [(''email'', Str jane_email), (''phone'', Str phone),
                         (''name'', Str jane_name)]
                 \<and> sublist ''5551234567'' (filter is_digit phone)"
proof -
  let ?text = "before @ jane_name @ between @ jane_email @ gap @ jane_phone @ rest"
  let ?w = "takeWhile phone_char rest"
  obtain y bs where between: "between = y # bs" using sep(1) by (cases between) auto
  have y: "\<not> is_lower y" using sep(2) by (simp add: between)
  have nm: "match_at name_re True (jane_name @ between @ jane_email @ gap @ jane_phone @ rest)
            = Some jane_name"
    using name_here [OF y] by (simp add: between)
  have n: "str_match ?text name_re = Some jane_name"
  proof (cases "before = []")
    case True
    then show ?thesis using exec_of_match [OF nm] by (simp add: str_match_def)
  next
    case False
    then have t: "is_line_terminator (last before)" using start by simp
    have "exec_from name_re True ?text
          = exec_from name_re (is_line_terminator (last before))
              (jane_name @ between @ jane_email @ gap @ jane_phone @ rest)"
      by (rule skip_before [OF name_rejects_terminator [OF t] False first])
    then show ?thesis using exec_of_match [OF nm] t by (simp add: str_match_def)
  qed
  obtain q where q: "jane_phone = CHR ''('' # q" by (simp add: jane_phone_def)
  have paren: "\<not> email_domain CHR ''(''" by code_simp
  obtain y' r' where tail: "gap @ jane_phone @ rest = y' # r'" and y': "\<not> email_domain y'"
  proof (cases gap)
    case Nil
    then show ?thesis using that [of "CHR ''(''" "q @ rest"] paren by (simp add: q)
  next
    case (Cons g gs)
    then show ?thesis using that [of g "gs @ jane_phone @ rest"] right by simp
  qed
  let ?p = "before @ jane_name @ between"
  have pne: "?p \<noteq> []" using sep(1) by simp
  have lp: "last ?p = last between" using sep(1) by simp
  have em: "match_at email_re ls (jane_email @ gap @ jane_phone @ rest) = Some jane_email" for ls
    using email_here [OF y', of ls r'] by (simp only: tail)
  have "exec_from email_re True (?p @ (jane_email @ gap @ jane_phone @ rest))
        = exec_from email_re (is_line_terminator (last ?p))
            (jane_email @ gap @ jane_phone @ rest)"
    by (rule skip_before [OF email_rejects pne no_email]) (simp_all only: lp left not_False_eq_True)
  also have "\<dots> = Some jane_email" by (rule exec_of_match [OF em])
  finally have e: "str_match ?text email_re = Some jane_email" by (simp add: str_match_def)
  have "exec_from phone_re True (before @ jane_name @ between @ jane_email @ gap) = None"
    using no_phone by (simp add: str_match_def)
  from phone_found [OF this, of rest] obtain u where
    "exec_from phone_re True ((before @ jane_name @ between @ jane_email @ gap) @ jane_phone @ rest)
     = Some (u @ jane_phone @ ?w)" by blast
  then have p: "str_match ?text phone_re = Some (u @ jane_phone @ ?w)"
    by (simp add: str_match_def)
  define phone where "phone = trim (u @ jane_phone @ ?w)"
  have "personalInfo (fallbackResumeParser ?text) =
          Some [(''email'', Str jane_email), (''phone'', Str phone), (''name'', Str jane_name)]"
    by (simp add: fallbackResumeParser_def Let_def n e p assign_def phone_def)
  moreover have "sublist ''5551234567'' (filter is_digit phone)"
    unfolding phone_def by (rule jane_phone_digits_in)
  ultimately show ?thesis by blast
qed


section \<open>Properties stated by the specification\<close>

text \<open>
  C2.  Whenever the fallback scorer returns, its overall score is the three sub-scores it
  reports weighted 50/30/20 and rounded to the nearest integer (a tie going up).  The sum
  the source forms in double arithmetic, \<open>weighted\<close>, rounds to the same integer as the
  exact sum: the sub-scores are integers between 0 and 100 and the education score is 0 or
  80, and on those the rounding errors never reach a tie.
\<close>

theorem overall_score_weighted_round:
  assumes "fallbackATSScoring jobDescription candidateProfile = Inr r"
  shows "overallScore r =
           Math_round (of_int (score (skillsMatch r)) * (5 / 10)
                       + of_int (score (experienceMatch r)) * (3 / 10)
                       + of_int (score (educationMatch r)) * (2 / 10))
         \<and> overallScore r = weighted (score (skillsMatch r)) (score (experienceMatch r))
                                      (score (educationMatch r))"
proof -
  note f = fallback_result [OF assms]
  have s: "0 \<le> score (skillsMatch r) \<and> score (skillsMatch r) \<le> 100"
    using skills_score_bounds [OF f(1)] .
  have e: "0 \<le> score (experienceMatch r) \<and> score (experienceMatch r) \<le> 100"
    using experience_score_bounds [of jobDescription candidateProfile] by (simp add: f(2))
  have d: "score (educationMatch r) = 0 \<or> score (educationMatch r) = 80"
    using education_score_cases [of candidateProfile] by (simp add: f(3))
  show ?thesis using weighted_exact_rat [of "score (skillsMatch r)" "score (experienceMatch r)"
      "score (educationMatch r)"] s e d f(4) by simp
qed

theorem overall_score_weighted_round_witness:
  "\<exists>r. fallbackATSScoring example_job example_profile = Inr r
       \<and> overallScore r =
           Math_round (of_int (score (skillsMatch r)) * (5 / 10)
                       + of_int (score (experienceMatch r)) * (3 / 10)
                       + of_int (score (educationMatch r)) * (2 / 10))"
proof -
  have "\<not> isl (fallbackATSScoring example_job example_profile)" by code_simp
  then obtain r where h: "fallbackATSScoring example_job example_profile = Inr r"
    by (cases "fallbackATSScoring example_job example_profile") auto
  from overall_score_weighted_round [OF h] h show ?thesis by blast
qed

text \<open>
  C3, as stated, fails: a job that requires no experience scores 0, not 100, against a
  profile whose experience list is absent, because the experience block only runs when
  both \<open>jobDescription.experience\<close> and \<open>candidateProfile.experience\<close> are there.
\<close>

theorem no_experience_required_counterexample:
  "required_years (job_requiring (Some 0)) = 0
   \<and> map_sum id (score \<circ> experienceMatch)
        (fallbackATSScoring (job_requiring (Some 0)) (profile_with (Some []) None)) = Inr 0"
  by code_simp

text \<open>
  C3, amended.  When the scorer returns and the required years are 0, the experience score
  is 100 if the job's experience object and the profile's experience list are both
  present, and 0 if either is absent; and the branch that divides by the required years is
  not the one taken.
\<close>

theorem no_experience_required:
  assumes "fallbackATSScoring jobDescription candidateProfile = Inr r"
    and "required_years jobDescription = 0"
  shows "score (experienceMatch r) =
           (if job_experience jobDescription = None \<or> experience candidateProfile = None
            then 0 else 100)
         \<and> experience_branch jobDescription candidateProfile \<noteq> PartialCredit"
proof -
  have b: "experience_branch jobDescription candidateProfile \<noteq> PartialCredit"
    using partial_credit_ratio(1) [of jobDescription candidateProfile] assms(2) by auto
  have "experience_score jobDescription candidateProfile =
          (if job_experience jobDescription = None \<or> experience candidateProfile = None
           then 0 else 100)"
    using assms(2) by (auto simp: experience_score_eq split: option.splits)
  then show ?thesis using b fallback_result(2) [OF assms(1)] by simp
qed

theorem no_experience_required_witness:
  "\<exists>r. fallbackATSScoring (job_requiring None) (profile_with (Some []) (Some 0)) = Inr r
       \<and> required_years (job_requiring None) = 0
       \<and> score (experienceMatch r) = 100"
proof -
  have "\<not> isl (fallbackATSScoring (job_requiring None) (profile_with (Some []) (Some 0)))"
    by code_simp
  then obtain r where
    h: "fallbackATSScoring (job_requiring None) (profile_with (Some []) (Some 0)) = Inr r"
    by (cases "fallbackATSScoring (job_requiring None) (profile_with (Some []) (Some 0))") auto
  have z: "required_years (job_requiring None) = 0" by code_simp
  have j: "job_experience (job_requiring None) \<noteq> None" by (simp add: job_requiring_def)
  have p: "experience (profile_with (Some []) (Some 0)) \<noteq> None" by (simp add: profile_with_def)
  from no_experience_required [OF h z] j p h z show ?thesis by auto
qed

text \<open>
  C4, as stated, fails in its general formula: the source rounds the double
  \<open>(candidateYears / requiredYears) * 100\<close>, and with 23 entries against 40 required years
  that double lies just under 57.5, so the score is 57 and not \<open>round(100 * 23 / 40) = 58\<close>.
\<close>

theorem experience_formula_counterexample:
  "map_sum id (score \<circ> experienceMatch)
     (fallbackATSScoring (job_requiring (Some 40)) (profile_with (Some []) (Some 23))) = Inr 57
   \<and> Math_round (100 * 23 / 40) = 58"
  by code_simp

text \<open>
  C4, amended.  With the job's experience object and the profile's experience list
  present, the candidate's years are the number of entries, and the score is 100 when they
  reach the required years, else \<open>Math.round((candidateYears / requiredYears) * 100)\<close> in
  double arithmetic when there is an entry, else 0.  For \<open>min = 5\<close> that is 0 for no
  entry, 20 for one and 100 for five or more.  For a whole number of required years below
  \<open>2^44\<close> the partial score is the exact \<open>round(100 * candidateYears / requiredYears)\<close>
  whenever that quotient is not exactly halfway between two integers.
\<close>

theorem experience_score_by_count:
  assumes "fallbackATSScoring jobDescription candidateProfile = Inr r"
    and "job_experience jobDescription = Some je"
    and "experience candidateProfile = Some xs"
  shows "candidateYears (experienceMatch r) = length xs
         \<and> score (experienceMatch r) =
             (if required_years jobDescription \<le> of_nat (length xs) then 100
              else if length xs > 0
                   then Math_round (js_mul (js_div (of_nat (length xs))
                                                   (required_years jobDescription)) 100)
                   else 0)
         \<and> (exp_min je = Some 5 \<longrightarrow>
              (length xs = 0 \<longrightarrow> score (experienceMatch r) = 0)
              \<and> (length xs = 1 \<longrightarrow> score (experienceMatch r) = 20)
              \<and> (5 \<le> length xs \<longrightarrow> score (experienceMatch r) = 100))
         \<and> (\<forall>n. required_years jobDescription = of_nat n \<and> n < 2 ^ 44 \<and> 0 < length xs
                  \<and> length xs < n
                  \<and> (200 * int (length xs) + int n) mod (2 * int n) \<noteq> 0
                \<longrightarrow> score (experienceMatch r) = Math_round (100 * of_nat (length xs) / of_nat n))"
proof -
  note f = fallback_result [OF assms(1)]
  have c: "candidateYears (experienceMatch r) = length xs"
    using f(8) assms(3) by (simp add: candidate_years_def)
  have s: "score (experienceMatch r) =
             (if required_years jobDescription \<le> of_nat (length xs) then 100
              else if length xs > 0
                   then Math_round (js_mul (js_div (of_nat (length xs))
                                                   (required_years jobDescription)) 100)
                   else 0)"
    using f(2) assms(2,3) by (simp add: experience_score_eq)
  have five: "(length xs = 0 \<longrightarrow> score (experienceMatch r) = 0)
              \<and> (length xs = 1 \<longrightarrow> score (experienceMatch r) = 20)
              \<and> (5 \<le> length xs \<longrightarrow> score (experienceMatch r) = 100)"
    if "exp_min je = Some 5"
  proof -
    have r5: "required_years jobDescription = 5"
      using that assms(2) by (simp add: required_years_def)
    show ?thesis using one_of_five by (auto simp: s r5)
  qed
  have exact: "score (experienceMatch r) = Math_round (100 * of_nat (length xs) / of_nat n)"
    if "required_years jobDescription = of_nat n" "n < 2 ^ 44" "0 < length xs" "length xs < n"
       "(200 * int (length xs) + int n) mod (2 * int n) \<noteq> 0" for n
  proof -
    have "score (experienceMatch r) = percentage (length xs) n"
      using that by (simp add: s percentage_def)
    also have "\<dots> = (200 * int (length xs) + int n) div (2 * int n)"
      using that by (intro percentage_exact) auto
    also have "\<dots> = Math_round (100 * of_nat (length xs) / of_nat n)"
      using that by (intro exact_percentage_round [symmetric]) auto
    finally show ?thesis .
  qed
  show ?thesis using c s five exact by blast
qed

theorem experience_score_by_count_witness:
  "\<exists>r. fallbackATSScoring (job_requiring (Some 5)) (profile_with (Some []) (Some 1)) = Inr r
       \<and> candidateYears (experienceMatch r) = 1 \<and> score (experienceMatch r) = 20
       \<and> score (experienceMatch r) = Math_round (100 * 1 / 5)"
proof -
  let ?j = "job_requiring (Some 5)" and ?p = "profile_with (Some []) (Some 1)"
  have "\<not> isl (fallbackATSScoring ?j ?p)" by code_simp
  then obtain r where h: "fallbackATSScoring ?j ?p = Inr r"
    by (cases "fallbackATSScoring ?j ?p") auto
  have j: "job_experience ?j = Some \<lparr>exp_min = Some 5, exp_max = None\<rparr>"
    by (simp add: job_requiring_def)
  have p: "experience ?p = Some [[]]" by (simp add: profile_with_def)
  have y: "required_years ?j = of_nat 5" by (simp add: required_years_def j)
  have t: "(200 * int (length [[] :: js_object]) + int 5) mod (2 * int 5) \<noteq> 0" by simp
  from experience_score_by_count [OF h j p] y t h show ?thesis
    by (auto simp: )
qed

text \<open>
  C5, as stated, fails in its formula: the source rounds the double
  \<open>(matched / total) * 100\<close>.  With 23 of 40 job skills matched that double lies just under
  57.5, so the score is 57 and not \<open>round(100 * 23 / 40) = 58\<close>.
\<close>

theorem skills_formula_counterexample:
  "map_sum id (score \<circ> skillsMatch)
     (fallbackATSScoring forty_skills_job (profile_with (Some (numbered_skills 23)) (Some 0)))
     = Inr 57
   \<and> Math_round (100 * 23 / 40) = 58"
  by code_simp

text \<open>
  C5, amended.  When the scorer returns and both skills lists are present, every entry has
  a lower-cased key, a job skill is matched when its key is contained in, or contains, the
  key of some candidate skill, and the skills score is 0 for a job without skills and
  otherwise \<open>Math.round((matched / total) * 100)\<close> in double arithmetic.  That is the exact
  \<open>round(100 * matched / total)\<close> whenever the quotient is not exactly halfway between two
  integers (an array has fewer than \<open>2^32\<close> elements).  The job skill \<open>Java\<close> against the
  candidate skills \<open>java\<close> and \<open>SQL\<close> scores 100.
\<close>

theorem skills_score_by_containment:
  assumes "fallbackATSScoring jobDescription candidateProfile = Inr r"
    and "job_skills jobDescription = Some js"
    and "skills candidateProfile = Some cs"
    and "length js < 2 ^ 32"
  shows "\<exists>jobSkills candidateSkills matched.
           map_err skill_key js = Inr jobSkills
           \<and> map_err skill_key cs = Inr candidateSkills
           \<and> matched = filter (\<lambda>skill. \<exists>cSkill\<in>set candidateSkills.
                                           sublist skill cSkill \<or> sublist cSkill skill) jobSkills
           \<and> score (skillsMatch r) =
               (if js = [] then 0 else percentage (length matched) (length js))
           \<and> ((200 * int (length matched) + int (length js)) mod (2 * int (length js)) \<noteq> 0
                \<longrightarrow> score (skillsMatch r)
                    = Math_round (100 * of_nat (length matched) / of_nat (length js)))"
proof -
  note f = fallback_result [OF assms(1)]
  from skills_score_present [OF f(1) assms(2,3)] obtain jk ck where
    jk: "map_err skill_key js = Inr jk" and ck: "map_err skill_key cs = Inr ck" and
    s: "score (skillsMatch r) =
          (if js = [] then 0 else percentage (length (filter (skill_matches ck) jk)) (length js))"
    by blast
  define matched where
    "matched = filter (\<lambda>skill. \<exists>cSkill\<in>set ck. sublist skill cSkill \<or> sublist cSkill skill) jk"
  have m: "filter (skill_matches ck) jk = matched"
    by (simp add: matched_def skill_matches_iff [abs_def])
  have len: "length jk = length js" using jk by (rule map_err_length)
  have le: "length matched \<le> length js" unfolding matched_def len [symmetric] by simp
  have exact: "score (skillsMatch r) = Math_round (100 * of_nat (length matched) / of_nat (length js))"
    if t: "(200 * int (length matched) + int (length js)) mod (2 * int (length js)) \<noteq> 0"
  proof -
    have pos: "0 < length js" using t le by (cases js) auto
    have "(2::nat) ^ 32 \<le> 2 ^ 44" by simp
    then have small: "length js < 2 ^ 44" using assms(4) by linarith
    have "score (skillsMatch r) = percentage (length matched) (length js)"
      using pos by (simp add: s m)
    also have "\<dots> = (200 * int (length matched) + int (length js)) div (2 * int (length js))"
      using le pos small t by (rule percentage_exact)
    also have "\<dots> = Math_round (100 * of_nat (length matched) / of_nat (length js))"
      using pos by (rule exact_percentage_round [symmetric])
    finally show ?thesis .
  qed
  have sc: "score (skillsMatch r) = (if js = [] then 0 else percentage (length matched) (length js))"
    using s by (simp only: m)
  show ?thesis
    by (intro exI [of _ jk] exI [of _ ck] exI [of _ matched] conjI impI)
       (fact jk, fact ck, fact matched_def, fact sc, erule exact)
qed

theorem skills_score_by_containment_witness:
  "\<exists>r. fallbackATSScoring example_job example_profile = Inr r
       \<and> score (skillsMatch r) = 100
       \<and> (\<exists>jobSkills. map_err skill_key (the (job_skills example_job)) = Inr jobSkills)"
proof -
  have "\<not> isl (fallbackATSScoring example_job example_profile)" by code_simp
  then obtain r where h: "fallbackATSScoring example_job example_profile = Inr r"
    by (cases "fallbackATSScoring example_job example_profile") auto
  have "map_sum id (score \<circ> skillsMatch) (fallbackATSScoring example_job example_profile) = Inr 100"
    by code_simp
  then have v: "score (skillsMatch r) = 100" by (simp add: h)
  have j: "job_skills example_job = Some (the (job_skills example_job))"
    by (simp add: example_job_def)
  have p: "skills example_profile = Some (the (skills example_profile))"
    by (simp add: example_profile_def profile_with_def)
  have l: "length (the (job_skills example_job)) < 2 ^ 32" by (simp add: example_job_def)
  from skills_score_by_containment [OF h j p l] obtain jobSkills where
    "map_err skill_key (the (job_skills example_job)) = Inr jobSkills" by blast
  with h v show ?thesis by blast
qed

text \<open>
  C9.  Whenever the fallback scorer returns a result, each of the three sub-scores and the
  overall score of that result is an integer between 0 and 100, and its lists of matched and
  of missing skills are empty; this holds whatever the names of the skills are.  The scorer
  does return when every skill entry on both sides is a string or carries a name that is a
  non-empty string.
\<close>

theorem score_ranges:
  "(all_skills usable_name jobDescription candidateProfile
      \<longrightarrow> (\<exists>r. fallbackATSScoring jobDescription candidateProfile = Inr r))
   \<and> (\<forall>r. fallbackATSScoring jobDescription candidateProfile = Inr r \<longrightarrow>
          0 \<le> score (skillsMatch r) \<and> score (skillsMatch r) \<le> 100
          \<and> 0 \<le> score (experienceMatch r) \<and> score (experienceMatch r) \<le> 100
          \<and> 0 \<le> score (educationMatch r) \<and> score (educationMatch r) \<le> 100
          \<and> 0 \<le> overallScore r \<and> overallScore r \<le> 100
          \<and> matchedSkills (skillsMatch r) = [] \<and> missingSkills (skillsMatch r) = [])"
proof (intro conjI impI allI)
  assume "all_skills usable_name jobDescription candidateProfile"
  then obtain s where "skills_score jobDescription candidateProfile = Inr s"
    using skills_score_total by blast
  then show "\<exists>r. fallbackATSScoring jobDescription candidateProfile = Inr r"
    by (rule fallback_total)
next
  fix r
  assume a: "fallbackATSScoring jobDescription candidateProfile = Inr r"
  note f = fallback_result [OF a]
  have s: "0 \<le> score (skillsMatch r) \<and> score (skillsMatch r) \<le> 100"
    using skills_score_bounds [OF f(1)] .
  have e: "0 \<le> score (experienceMatch r) \<and> score (experienceMatch r) \<le> 100"
    using experience_score_bounds [of jobDescription candidateProfile] by (simp add: f(2))
  have d: "score (educationMatch r) = 0 \<or> score (educationMatch r) = 80"
    using education_score_cases [of candidateProfile] by (simp add: f(3))
  have o: "overallScore r = (5 * score (skillsMatch r) + 3 * score (experienceMatch r)
                              + 2 * score (educationMatch r) + 5) div 10"
    using weighted_exact [of "score (skillsMatch r)" "score (experienceMatch r)"
        "score (educationMatch r)"] s e d f(4) by simp
  show "0 \<le> score (skillsMatch r)" "score (skillsMatch r) \<le> 100" using s by simp_all
  show "0 \<le> score (experienceMatch r)" "score (experienceMatch r) \<le> 100" using e by simp_all
  show "0 \<le> score (educationMatch r)" "score (educationMatch r) \<le> 100" using d by auto
  show "0 \<le> overallScore r" "overallScore r \<le> 100" using s e d unfolding o by auto
  show "matchedSkills (skillsMatch r) = []" "missingSkills (skillsMatch r) = []"
    using f(5,6) by simp_all
qed

theorem score_ranges_witness:
  "all_skills usable_name example_job example_profile
   \<and> (\<exists>r. fallbackATSScoring example_job example_profile = Inr r
          \<and> 0 \<le> overallScore r \<and> overallScore r \<le> 100
          \<and> matchedSkills (skillsMatch r) = [])"
proof -
  have u: "all_skills usable_name example_job example_profile" by code_simp
  with score_ranges [of example_job example_profile] show ?thesis by blast
qed

text \<open>
  C1.  The scoring operation raises to its caller when a skill has no usable name: the
  fallback scorer raises a TypeError, inside the \<open>try\<close> and again when the \<open>catch\<close> block
  calls it, and the second exception leaves the operation.  Here the profile holds a skill
  whose name is the empty string, and the service is not configured or its call fails.
\<close>

theorem score_raises_on_blank_skill_name:
  "calculateATSScore NotConfigured parse example_job blank_skill_profile = Inl TypeError
   \<and> calculateATSScore CallFails parse example_job blank_skill_profile = Inl TypeError"
proof -
  have "fallbackATSScoring example_job blank_skill_profile = Inl TypeError" by code_simp
  then show ?thesis by (simp add: calculateATSScore_def primary_path_def try_catch_def)
qed

text \<open>
  The rest of C1 holds: interpreting a resume never raises, and when the primary path fails
  either operation gives what its fallback gives.
\<close>

lemma interpret_never_raises:
  "\<exists>a. parseResumeWithGemini svc parse resumeText = Inr a"
  by (simp add: parseResumeWithGemini_def primary_path_def try_catch_def
           split: service.splits option.splits)

lemma interpret_falls_back:
  assumes "svc = NotConfigured \<or> svc = CallFails
           \<or> (\<exists>text. svc = Responds text \<and>
                 (case str_match (strip_fences (trim text)) json_re of
                    None \<Rightarrow> True | Some jsonMatch \<Rightarrow> parse jsonMatch = None))"
  shows "parseResumeWithGemini svc parse resumeText
         = Inr (FromFallback (fallbackResumeParser resumeText))"
  using assms
  by (auto simp: parseResumeWithGemini_def primary_path_def try_catch_def split: option.splits)

lemma score_falls_back:
  assumes "svc = NotConfigured \<or> svc = CallFails
           \<or> (\<exists>text. svc = Responds text \<and>
                 (case str_match (strip_fences (trim text)) json_re of
                    None \<Rightarrow> True | Some jsonMatch \<Rightarrow> parse jsonMatch = None))"
  shows "calculateATSScore svc parse jobDescription candidateProfile
         = map_sum id FromFallback (fallbackATSScoring jobDescription candidateProfile)"
  using assms
  by (cases "fallbackATSScoring jobDescription candidateProfile")
     (auto simp: calculateATSScore_def primary_path_def try_catch_def split: option.splits)

text \<open>
  C6.  The fallback extractor is a total function of the resume text.  Its result has all
  eight top-level fields: the summary is the empty string and the experience, projects,
  certifications and languages are empty lists, always; the personal information is the
  empty object when none of the three patterns matches, the education list is empty when no
  line contains a degree keyword, and the skills list is empty when no skill keyword occurs.
  On the empty string every field is empty.
\<close>

theorem fallback_parser_shape:
  "(\<exists>info entries found.
      fallbackResumeParser resumeText =
        \<lparr>personalInfo = Some info, summary = Some '''', experience = Some [],
         education = Some entries, skills = Some found, projects = Some [],
         certifications = Some [], languages = Some []\<rparr>
      \<and> (str_match resumeText email_re = None \<and> str_match resumeText phone_re = None
           \<and> str_match resumeText name_re = None \<longrightarrow> info = [])
      \<and> ((\<forall>line\<in>set (resume_lines resumeText). \<forall>keyword\<in>set educationKeywords.
              \<not> sublist keyword line) \<longrightarrow> entries = [])
      \<and> ((\<forall>skill\<in>set skillKeywords.
              \<not> sublist (toLowerCase skill) (toLowerCase resumeText)) \<longrightarrow> found = []))
   \<and> fallbackResumeParser '''' =
        \<lparr>personalInfo = Some [], summary = Some '''', experience = Some [],
         education = Some [], skills = Some [], projects = Some [],
         certifications = Some [], languages = Some []\<rparr>"
proof
  let ?info = "assign (assign (assign [] ''email'' (str_match resumeText email_re))
                              ''phone'' (map_option trim (str_match resumeText phone_re)))
                      ''name'' (str_match resumeText name_re)"
  let ?entries = "education_entries (resume_lines resumeText)"
  let ?found = "map SkillObject (found_skills resumeText)"
  have 1: "fallbackResumeParser resumeText =
        \<lparr>personalInfo = Some ?info, summary = Some '''', experience = Some [],
         education = Some ?entries, skills = Some ?found, projects = Some [],
         certifications = Some [], languages = Some []\<rparr>"
    by (simp add: fallbackResumeParser_def Let_def)
  have 2: "str_match resumeText email_re = None \<and> str_match resumeText phone_re = None
           \<and> str_match resumeText name_re = None \<longrightarrow> ?info = []"
    by (simp add: assign_def)
  have 3: "(\<forall>line\<in>set (resume_lines resumeText). \<forall>keyword\<in>set educationKeywords.
              \<not> sublist keyword line) \<longrightarrow> ?entries = []"
    by (simp add: education_entries_eq filter_empty_conv)
  have 4: "(\<forall>skill\<in>set skillKeywords.
              \<not> sublist (toLowerCase skill) (toLowerCase resumeText)) \<longrightarrow> ?found = []"
    by (simp add: found_skills_eq filter_empty_conv)
  show "\<exists>info entries found.
      fallbackResumeParser resumeText =
        \<lparr>personalInfo = Some info, summary = Some '''', experience = Some [],
         education = Some entries, skills = Some found, projects = Some [],
         certifications = Some [], languages = Some []\<rparr>
      \<and> (str_match resumeText email_re = None \<and> str_match resumeText phone_re = None
           \<and> str_match resumeText name_re = None \<longrightarrow> info = [])
      \<and> ((\<forall>line\<in>set (resume_lines resumeText). \<forall>keyword\<in>set educationKeywords.
              \<not> sublist keyword line) \<longrightarrow> entries = [])
      \<and> ((\<forall>skill\<in>set skillKeywords.
              \<not> sublist (toLowerCase skill) (toLowerCase resumeText)) \<longrightarrow> found = [])"
    by (intro exI [of _ ?info] exI [of _ ?entries] exI [of _ ?found] conjI) (fact 1, fact 2, fact 3, fact 4)
  show "fallbackResumeParser '''' =
        \<lparr>personalInfo = Some [], summary = Some '''', experience = Some [],
         education = Some [], skills = Some [], projects = Some [],
         certifications = Some [], languages = Some []\<rparr>"
    by code_simp
qed

theorem fallback_parser_shape_witness:
  "str_match '''' email_re = None \<and> str_match '''' phone_re = None
   \<and> str_match '''' name_re = None
   \<and> (\<exists>info entries found.
         fallbackResumeParser '''' =
           \<lparr>personalInfo = Some info, summary = Some '''', experience = Some [],
            education = Some entries, skills = Some found, projects = Some [],
            certifications = Some [], languages = Some []\<rparr>
         \<and> info = [] \<and> entries = [] \<and> found = [])"
proof -
  have m: "str_match '''' email_re = None \<and> str_match '''' phone_re = None
           \<and> str_match '''' name_re = None" by code_simp
  have l: "resume_lines '''' = []" by code_simp
  have k: "\<forall>skill\<in>set skillKeywords. \<not> sublist (toLowerCase skill) (toLowerCase '''')"
    by (simp add: skillKeywords_def toLowerCase_def)
  from fallback_parser_shape [of "''''"] m l k show ?thesis by auto
qed


text \<open>
  C8.  The education list has, for each non-blank trimmed line of the text in order and for
  each degree keyword contained in that line, one entry whose degree is the whole trimmed
  line and whose other fields are empty strings.  The line
  \<open>Bachelor of Science in Computer Science\<close> gives exactly one entry; a line that contains
  two keywords gives two equal entries.
\<close>

theorem education_entry_per_line_and_keyword:
  "education (fallbackResumeParser resumeText) =
     Some (concat (map (\<lambda>line. map (\<lambda>keyword.
                                       [(''degree'', Str line), (''school'', Str ''''),
                                        (''location'', Str ''''), (''startDate'', Str ''''),
                                        (''endDate'', Str ''''), (''gpa'', Str ''''),
                                        (''description'', Str '''')])
                                     (filter (\<lambda>keyword. sublist keyword line)
                                        [''Bachelor'', ''Master'', ''PhD'', ''Diploma'',
                                         ''Certificate'']))
                       (filter (\<lambda>line. line \<noteq> [])
                          (map trim (split_on (CHR 0x0A) resumeText)))))
   \<and> education (fallbackResumeParser ''Bachelor of Science in Computer Science'') =
       Some [[(''degree'', Str ''Bachelor of Science in Computer Science''),
              (''school'', Str ''''), (''location'', Str ''''), (''startDate'', Str ''''),
              (''endDate'', Str ''''), (''gpa'', Str ''''), (''description'', Str '''')]]
   \<and> education (fallbackResumeParser ''  Master of Science, Diploma in Law  '') =
       Some [[(''degree'', Str ''Master of Science, Diploma in Law''),
              (''school'', Str ''''), (''location'', Str ''''), (''startDate'', Str ''''),
              (''endDate'', Str ''''), (''gpa'', Str ''''), (''description'', Str '''')],
             [(''degree'', Str ''Master of Science, Diploma in Law''),
              (''school'', Str ''''), (''location'', Str ''''), (''startDate'', Str ''''),
              (''endDate'', Str ''''), (''gpa'', Str ''''), (''description'', Str '''')]]"
proof (intro conjI)
  show "education (fallbackResumeParser resumeText) =
     Some (concat (map (\<lambda>line. map (\<lambda>keyword.
                                       [(''degree'', Str line), (''school'', Str ''''),
                                        (''location'', Str ''''), (''startDate'', Str ''''),
                                        (''endDate'', Str ''''), (''gpa'', Str ''''),
                                        (''description'', Str '''')])
                                     (filter (\<lambda>keyword. sublist keyword line)
                                        [''Bachelor'', ''Master'', ''PhD'', ''Diploma'',
                                         ''Certificate'']))
                       (filter (\<lambda>line. line \<noteq> [])
                          (map trim (split_on (CHR 0x0A) resumeText)))))"
    by (simp add: fallbackResumeParser_def Let_def education_entries_eq resume_lines_def
          education_object_def educationKeywords_def)
qed (code_simp, code_simp)



lemma lower_JavaScript: "toLowerCase ''JavaScript'' = ''javascript''"
  by code_simp

lemma lower_Java: "toLowerCase ''Java'' = ''java''"
  by code_simp

text \<open>
  C10.  When the resume text contains \<open>JavaScript\<close> in any letter case, the skills list holds
  an entry named \<open>JavaScript\<close> and an entry named \<open>Java\<close>, both with category
  \<open>Technical\<close> and level \<open>Intermediate\<close>: the keyword test is containment in the
  lower-cased text, and \<open>java\<close> is contained in \<open>javascript\<close>.
\<close>

theorem javascript_implies_java:
  assumes "resumeText = before @ word @ after" and "toLowerCase word = ''javascript''"
  shows "\<exists>found. skills (fallbackResumeParser resumeText) = Some found
           \<and> SkillObject [(''name'', Str ''JavaScript''), (''category'', Str ''Technical''),
                           (''level'', Str ''Intermediate'')] \<in> set found
           \<and> SkillObject [(''name'', Str ''Java''), (''category'', Str ''Technical''),
                           (''level'', Str ''Intermediate'')] \<in> set found"
proof -
  have t: "toLowerCase resumeText = toLowerCase before @ ''javascript'' @ toLowerCase after"
    by (simp add: assms toLowerCase_append)
  have js: "sublist (toLowerCase ''JavaScript'') (toLowerCase resumeText)"
    unfolding lower_JavaScript t by (rule sublist_appendI)
  have "toLowerCase resumeText = toLowerCase before @ ''java'' @ (''script'' @ toLowerCase after)"
    by (simp add: t)
  then have j: "sublist (toLowerCase ''Java'') (toLowerCase resumeText)"
    unfolding lower_Java by (simp only: sublist_appendI)
  have k: "''JavaScript'' \<in> set skillKeywords" "''Java'' \<in> set skillKeywords"
    by (simp_all add: skillKeywords_def)
  have "skill_object ''JavaScript'' \<in> set (found_skills resumeText)"
       "skill_object ''Java'' \<in> set (found_skills resumeText)"
    unfolding found_skills_eq using js j k by auto
  then show ?thesis
    by (simp add: fallbackResumeParser_def Let_def skill_object_def image_iff)
qed

theorem javascript_implies_java_witness:
  "toLowerCase ''JAVASCRIPT'' = ''javascript''
   \<and> \<not> sublist ''Java'' ''I write JAVASCRIPT daily''
   \<and> (\<exists>found. skills (fallbackResumeParser ''I write JAVASCRIPT daily'') = Some found
           \<and> SkillObject [(''name'', Str ''JavaScript''), (''category'', Str ''Technical''),
                           (''level'', Str ''Intermediate'')] \<in> set found
           \<and> SkillObject [(''name'', Str ''Java''), (''category'', Str ''Technical''),
                           (''level'', Str ''Intermediate'')] \<in> set found)"
proof -
  have a: "''I write JAVASCRIPT daily'' = ''I write '' @ ''JAVASCRIPT'' @ '' daily''" by simp
  have b: "toLowerCase ''JAVASCRIPT'' = ''javascript''" by code_simp
  have c: "\<not> str_includes ''I write JAVASCRIPT daily'' ''Java''" by code_simp
  from javascript_implies_java [OF a b] b c show ?thesis
    by (simp only: str_includes_sublist simp_thms)
qed

text \<open>
  C7, as stated, fails: the phone pattern accepts any run of ten or more digits, white space,
  hyphens and parentheses, so that in a resume with the line \<open>Engineer 2015 - 2019\<close>
  between the name and the e-mail address the first match is the run of dates, and the
  phone holds none of the digits of \<open>(555) 123-4567\<close>.
\<close>

theorem jane_doe_counterexample:
  "personalInfo (fallbackResumeParser jane_with_dates) =
     Some [(''email'', Str ''jane.doe@example.com''), (''phone'', Str ''2015 - 2019''),
           (''name'', Str ''Jane Doe'')]"
  by code_simp

text \<open>
  C7, amended.  Let the text hold \<open>Jane Doe\<close>, then \<open>jane.doe@example.com\<close>, then
  \<open>(555) 123-4567\<close>, with any text before, between and after them, where
  \<^item> \<open>Jane Doe\<close> starts a line, no earlier line starts with two capitalized words, and the
    character after it is not a small letter;
  \<^item> the address is delimited (the character before it is not one of an e-mail address, the
    character after it not one of a domain) and the e-mail pattern does not match within
    the text before it;
  \<^item> the phone pattern does not match within the text before the phone number.
  Then the extractor returns the name \<open>Jane Doe\<close>, the e-mail address
  \<open>jane.doe@example.com\<close> and a phone among whose digits are \<open>5551234567\<close>.  The name need
  not be on the first line, and the three need not be on lines of their own.
\<close>

theorem jane_doe_extracted:
  assumes "before = [] \<or> is_line_terminator (last before)"
    and "str_match before name_re = None"
    and "between \<noteq> []" and "\<not> is_lower (hd between)"
    and "\<not> email_local (last between)" and "last between \<noteq> CHR ''@''"
    and "str_match (before @ ''Jane Doe'' @ between) email_re = None"
    and "gap = [] \<or> \<not> email_domain (hd gap)"
    and "str_match (before @ ''Jane Doe'' @ between @ ''jane.doe@example.com'' @ gap) phone_re
         = None"
  shows "\<exists>phone. personalInfo (fallbackResumeParser
                     (before @ ''Jane Doe'' @ between @ ''jane.doe@example.com'' @ gap
                      @ ''(555) 123-4567'' @ rest)) =
                   Some [(''email'', Str ''jane.doe@example.com''), (''phone'', Str phone),
                         (''name'', Str ''Jane Doe'')]
                 \<and> sublist ''5551234567'' (filter is_digit phone)"
  using jane_found [of before between gap rest] assms
  unfolding jane_name_def jane_email_def jane_phone_def by blast

theorem jane_doe_extracted_witness:
  "str_match cv_heading name_re = None
   \<and> str_match (cv_heading @ ''Jane Doe'' @ title_line) email_re = None
   \<and> str_match (cv_heading @ ''Jane Doe'' @ title_line @ ''jane.doe@example.com''
                 @ [line_feed]) phone_re = None
   \<and> (\<exists>phone. personalInfo (fallbackResumeParser
                   (cv_heading @ ''Jane Doe'' @ title_line @ ''jane.doe@example.com''
                    @ [line_feed] @ ''(555) 123-4567'' @ [])) =
                 Some [(''email'', Str ''jane.doe@example.com''), (''phone'', Str phone),
                       (''name'', Str ''Jane Doe'')]
               \<and> sublist ''5551234567'' (filter is_digit phone))
   \<and> str_match (''Jane Doe'' @ bar) email_re = None
   \<and> str_match (''Jane Doe'' @ bar @ ''jane.doe@example.com'' @ bar) phone_re = None
   \<and> (\<exists>phone. personalInfo (fallbackResumeParser
                   ([] @ ''Jane Doe'' @ bar @ ''jane.doe@example.com'' @ bar
                    @ ''(555) 123-4567'' @ [])) =
                 Some [(''email'', Str ''jane.doe@example.com''), (''phone'', Str phone),
                       (''name'', Str ''Jane Doe'')]
               \<and> sublist ''5551234567'' (filter is_digit phone))"
proof -
  have a1: "cv_heading = [] \<or> is_line_terminator (last cv_heading)" by code_simp
  have a2: "str_match cv_heading name_re = None" by code_simp
  have a3: "title_line \<noteq> []" "\<not> is_lower (hd title_line)"
    "\<not> email_local (last title_line)" "last title_line \<noteq> CHR ''@''" by code_simp+
  have a4: "str_match (cv_heading @ ''Jane Doe'' @ title_line) email_re = None" by code_simp
  have a5: "[line_feed] = [] \<or> \<not> email_domain (hd [line_feed])" by code_simp
  have a6: "str_match (cv_heading @ ''Jane Doe'' @ title_line @ ''jane.doe@example.com''
                       @ [line_feed]) phone_re = None" by code_simp
  note w1 = jane_doe_extracted [OF a1 a2 a3 a4 a5 a6, of "[]"]
  have b1: "([] :: string) = [] \<or> is_line_terminator (last ([] :: string))" by simp
  have b2: "str_match [] name_re = None" by code_simp
  have b3: "bar \<noteq> []" "\<not> is_lower (hd bar)"
    "\<not> email_local (last bar)" "last bar \<noteq> CHR ''@''" by code_simp+
  have b4: "str_match ([] @ ''Jane Doe'' @ bar) email_re = None" by code_simp
  have b5: "bar = [] \<or> \<not> email_domain (hd bar)" by code_simp
  have b6: "str_match ([] @ ''Jane Doe'' @ bar @ ''jane.doe@example.com'' @ bar) phone_re = None"
    by code_simp
  note w2 = jane_doe_extracted [OF b1 b2 b3 b4 b5 b6, of "[]"]
  have c4: "str_match (''Jane Doe'' @ bar) email_re = None" by code_simp
  have c6: "str_match (''Jane Doe'' @ bar @ ''jane.doe@example.com'' @ bar) phone_re = None"
    by code_simp
  show ?thesis
    by (intro conjI) (fact a2, fact a4, fact a6, fact w1, fact c4, fact c6, fact w2)
qed

end
